theory Spec2Isabelle
  imports
    Main
    "HOL-Library.Char_ord"
    "HOL-Library.List_Lexorder"
    "HOL-Library.Product_Lexorder"
    "HOL-Library.Sublist"
begin

section \<open>Python and pandas primitives used by \<^verbatim>\<open>data_processing.py\<close>\<close>

text \<open>
  The exceptions the script can meet. The script raises nothing itself; these are the
  exceptions of the library calls it makes: \<^verbatim>\<open>pd.to_datetime\<close> on a cell it cannot
  parse (\<open>ValueError\<close>), \<^verbatim>\<open>.split\<close> on a missing value (\<open>AttributeError\<close>), an
  index outside a sequence (\<open>IndexError\<close>) and a keyword argument the callee does not
  have (\<open>TypeError\<close>).
\<close>

datatype error = ValueError | AttributeError | IndexError | TypeError

text \<open>
  A pandas timestamp: nanoseconds since the epoch. A missing value (\<open>NaN\<close>) of a string
  column is \<open>None\<close>.
\<close>

type_synonym timestamp = int

text \<open>
  \<^verbatim>\<open>s.split(sep)\<close> for a separator that is not empty (the script splits on \<open>/\<close> and
  \<open>//\<close> only): the pieces between the occurrences of \<open>sep\<close>, found left to right
  without overlap.
\<close>

function split_str :: "string \<Rightarrow> string \<Rightarrow> string list" where
  "split_str sep [] = [[]]"
| "split_str sep (c # cs) =
     (if sep \<noteq> [] \<and> prefix sep (c # cs)
      then [] # split_str sep (drop (length sep) (c # cs))
      else (case split_str sep cs of
              [] \<Rightarrow> [[c]]
            | w # ws \<Rightarrow> (c # w) # ws))"
  by pat_completeness auto
termination
  by (relation "measure (\<lambda>(sep, s). length s)") auto


text \<open>\<^verbatim>\<open>xs[0]\<close> and \<^verbatim>\<open>xs[-1]\<close> (also \<^verbatim>\<open>.iloc[0]\<close>): \<open>IndexError\<close> on an empty sequence.\<close>

definition py_first :: "'a list \<Rightarrow> error + 'a" where
  "py_first xs = (case xs of [] \<Rightarrow> Inl IndexError | x # _ \<Rightarrow> Inr x)"

definition py_last :: "'a list \<Rightarrow> error + 'a" where
  "py_last xs = (if xs = [] then Inl IndexError else Inr (last xs))"

text \<open>\<^verbatim>\<open>sep.join(xs)\<close>.\<close>

fun join :: "string \<Rightarrow> string list \<Rightarrow> string" where
  "join sep [] = []"
| "join sep [x] = x"
| "join sep (x # y # ys) = x @ sep @ join sep (y # ys)"

text \<open>\<^verbatim>\<open>str(n)\<close> of a count, and the two-digit fields of \<^verbatim>\<open>strftime\<close>.\<close>

definition digit_char :: "nat \<Rightarrow> char" where
  "digit_char d = ''0123456789'' ! (d mod 10)"

function str_nat :: "nat \<Rightarrow> string" where
  "str_nat n = (if n < 10 then [digit_char n] else str_nat (n div 10) @ [digit_char (n mod 10)])"
  by pat_completeness auto
termination
  by (relation "measure id") auto

declare str_nat.simps [simp del]

definition two_digits :: "nat \<Rightarrow> string" where
  "two_digits n = [digit_char (n div 10), digit_char n]"

text \<open>\<^verbatim>\<open>timestamp.strftime('%H:%M:%S')\<close> and \<^verbatim>\<open>timestamp.dt.date\<close> (as a day number).\<close>

definition strftime_HMS :: "timestamp \<Rightarrow> string" where
  "strftime_HMS t =
     (let s = nat ((t div 1000000000) mod 86400)
      in two_digits (s div 3600) @ '':'' @ two_digits (s div 60 mod 60) @ '':'' @ two_digits (s mod 60))"

definition date_only :: "timestamp \<Rightarrow> int" where
  "date_only t = t div 86400000000000"

text \<open>
  \<^verbatim>\<open>Series.mode()\<close>: the values with the highest count, sorted in ascending order
  (pandas sorts the modes before returning them).
\<close>

definition mode :: "'a::linorder list \<Rightarrow> 'a list" where
  "mode xs =
     (let m = fold max (map (count_list xs) xs) 0
      in sort (remdups (filter (\<lambda>x. count_list xs x = m) xs)))"

text \<open>
  \<^verbatim>\<open>Counter(xs)\<close>: a dictionary in insertion order, so the keys are in the order of
  their first occurrence; \<^verbatim>\<open>.most_common(n)\<close> is
  \<^verbatim>\<open>sorted(items, key=count, reverse=True)[:n]\<close>, a stable sort, so equal counts keep
  the dictionary's order.
\<close>

fun counter_add :: "'a \<Rightarrow> ('a \<times> nat) list \<Rightarrow> ('a \<times> nat) list" where
  "counter_add x [] = [(x, 1)]"
| "counter_add x ((y, n) # c) = (if x = y then (y, n + 1) # c else (y, n) # counter_add x c)"

definition Counter :: "'a list \<Rightarrow> ('a \<times> nat) list" where
  "Counter xs = fold counter_add xs []"

definition most_common :: "nat \<Rightarrow> ('a \<times> nat) list \<Rightarrow> ('a \<times> nat) list" where
  "most_common n c = take n (sort_key (\<lambda>(d, k). - int k) c)"

section \<open>The canonical event and the Narrative Summarizer\<close>

text \<open>
  A row of the merged frame: the columns selected at lines 103, 111 and 120.
  \<open>user_id\<close> is missing where \<^verbatim>\<open>.str[1]\<close> found no second component, \<open>url\<close> is
  missing on the rows of the logon and device frames (they have no such column).
\<close>

record event =
  timestamp :: timestamp
  user_id :: "string option"
  role :: string
  pc :: string
  activity_type :: string
  url :: "string option"

text \<open>An f-string prints a missing value as \<open>nan\<close>.\<close>

definition fmt_missing :: "string option \<Rightarrow> string" where
  "fmt_missing v = (case v of None \<Rightarrow> ''nan'' | Some s \<Rightarrow> s)"

text \<open>Line 39: the header sentence.\<close>

definition header_sentence :: "string \<Rightarrow> string \<Rightarrow> string \<Rightarrow> string" where
  "header_sentence u r p = ''User '' @ u @ '' (Role: '' @ r @ '') on '' @ p @ '':''"

text \<open>Line 36: the pc of the header.\<close>

definition header_pc :: "event list \<Rightarrow> error + string" where
  "header_pc events =
     (if map pc events \<noteq> [] then py_first (mode (map pc events)) else Inr ''Unknown PC'')"

text \<open>
  Line 55, for one buffered item: \<^verbatim>\<open>item['url'].split('//')[-1].split('/')[0]\<close>.
\<close>

definition domain_of :: "string \<Rightarrow> error + string" where
  "domain_of u =
     (case py_last (split_str ''//'' u) of
        Inl e \<Rightarrow> Inl e
      | Inr rest \<Rightarrow> py_first (split_str ''/'' rest))"

definition item_domain :: "event \<Rightarrow> error + string" where
  "item_domain item = (case url item of None \<Rightarrow> Inl AttributeError | Some u \<Rightarrow> domain_of u)"

text \<open>The list comprehension of line 55: the first exception ends it.\<close>

fun domains_of :: "event list \<Rightarrow> error + string list" where
  "domains_of [] = Inr []"
| "domains_of (item # items) =
     (case item_domain item of
        Inl e \<Rightarrow> Inl e
      | Inr d \<Rightarrow> (case domains_of items of Inl e \<Rightarrow> Inl e | Inr ds \<Rightarrow> Inr (d # ds)))"

text \<open>Lines 56 and 57.\<close>

definition top_domains_str :: "string list \<Rightarrow> string" where
  "top_domains_str ds =
     join '', '' (map (\<lambda>(domain, count). domain @ '' ('' @ str_nat count @ '' times)'')
                    (most_common 3 (Counter ds)))"

text \<open>Line 60: the web-summary sentence.\<close>

definition web_summary_sentence :: "string \<Rightarrow> string \<Rightarrow> nat \<Rightarrow> string \<Rightarrow> string" where
  "web_summary_sentence start_time end_time total_visits tops =
     ''Between '' @ start_time @ '' and '' @ end_time @ '', visited '' @ str_nat total_visits
       @ '' websites, including '' @ tops @ ''.''"

text \<open>Lines 50 to 61: the sentence of a buffer that is not empty.\<close>

definition flush_sentence :: "event list \<Rightarrow> error + string" where
  "flush_sentence web_activity_buffer =
     (let start_time = strftime_HMS (timestamp (hd web_activity_buffer));
          end_time = strftime_HMS (timestamp (last web_activity_buffer));
          total_visits = length web_activity_buffer
      in case domains_of web_activity_buffer of
           Inl e \<Rightarrow> Inl e
         | Inr ds \<Rightarrow> Inr (web_summary_sentence start_time end_time total_visits (top_domains_str ds)))"

text \<open>
  The state the closure \<^verbatim>\<open>flush_web_buffer\<close> shares with the loop:
  \<^verbatim>\<open>narrative_parts\<close> and \<^verbatim>\<open>web_activity_buffer\<close>.
\<close>

type_synonym summarizer_state = "string list \<times> event list"

definition flush_web_buffer :: "summarizer_state \<Rightarrow> error + summarizer_state" where
  "flush_web_buffer st =
     (case st of (narrative_parts, web_activity_buffer) \<Rightarrow>
        if web_activity_buffer = [] then Inr st
        else (case flush_sentence web_activity_buffer of
                Inl e \<Rightarrow> Inl e
              | Inr sentence \<Rightarrow> Inr (narrative_parts @ [sentence], [])))"

text \<open>Lines 72 to 82: what one event appends, after the flush of line 70.\<close>

definition emit_event :: "event \<Rightarrow> summarizer_state \<Rightarrow> summarizer_state" where
  "emit_event event st =
     (case st of (narrative_parts, web_activity_buffer) \<Rightarrow>
        let time_str = strftime_HMS (timestamp event);
            activity_type' = activity_type event
        in if activity_type' = ''logon''
             then (narrative_parts @ [''Logged on at '' @ time_str @ ''.''], web_activity_buffer)
           else if activity_type' = ''logoff''
             then (narrative_parts @ [''Logged off at '' @ time_str @ ''.''], web_activity_buffer)
           else if activity_type' = ''device_connect''
             then (narrative_parts @ [''Connected a USB device at '' @ time_str @ ''.''], web_activity_buffer)
           else if activity_type' = ''device_disconnect''
             then (narrative_parts @ [''Disconnected a USB device at '' @ time_str @ ''.''], web_activity_buffer)
           else if activity_type' = ''http''
             then (narrative_parts, web_activity_buffer @ [event])
           else st)"

text \<open>Lines 64 to 82: the loop over the rows of the bucket.\<close>

fun process_events :: "event list \<Rightarrow> summarizer_state \<Rightarrow> error + summarizer_state" where
  "process_events [] st = Inr st"
| "process_events (event # rest) st =
     (case (if activity_type event \<noteq> ''http'' then flush_web_buffer st else Inr st) of
        Inl e \<Rightarrow> Inl e
      | Inr st' \<Rightarrow> process_events rest (emit_event event st'))"

text \<open>
  Lines 31 to 85 for a bucket that is not empty: the list \<^verbatim>\<open>narrative_parts\<close> when
  the function reaches line 87.
\<close>

definition summary_parts :: "event list \<Rightarrow> error + string list" where
  "summary_parts events =
     (let first_event = hd events;
          user_id' = user_id first_event;
          role' = role first_event
      in case header_pc events of
           Inl e \<Rightarrow> Inl e
         | Inr pc' \<Rightarrow>
             (case process_events events ([header_sentence (fmt_missing user_id') role' pc'], []) of
                Inl e \<Rightarrow> Inl e
              | Inr st \<Rightarrow>
                  (case flush_web_buffer st of
                     Inl e \<Rightarrow> Inl e
                   | Inr (narrative_parts, _) \<Rightarrow> Inr narrative_parts)))"

definition create_summary_from_events :: "event list \<Rightarrow> error + string" where
  "create_summary_from_events events =
     (if events = [] then Inr ''''
      else (case summary_parts events of
              Inl e \<Rightarrow> Inl e
            | Inr narrative_parts \<Rightarrow> Inr (join '' '' narrative_parts)))"

section \<open>Normalizer, Merger and Day Grouper: \<^verbatim>\<open>generate_narratives\<close>\<close>

text \<open>
  The frames \<^verbatim>\<open>pd.read_csv\<close> returns, by the columns the script uses: a row of
  \<^verbatim>\<open>logon.csv\<close> or \<^verbatim>\<open>device.csv\<close> is \<open>(date, user, pc, activity)\<close>, a row of
  \<^verbatim>\<open>http.csv\<close> is \<open>(id, date, user, pc, url, content)\<close>, a row of the role map is
  \<open>(user_id, role)\<close>. \<^verbatim>\<open>pd.to_datetime\<close> is a parameter: \<open>None\<close> where it raises.
  The cells are strings: these are the frames whose columns \<^verbatim>\<open>read_csv\<close> left as
  text, every cell filled. A column that holds numbers only is read as numbers and an
  empty cell as a missing value; frames with such columns are not inputs of this model.
\<close>

type_synonym activity_row = "string \<times> string \<times> string \<times> string"
type_synonym http_row = "string \<times> string \<times> string \<times> string \<times> string \<times> string"
type_synonym role_map = "(string \<times> string) list"

text \<open>
  Lines 99, 107 and 116: \<^verbatim>\<open>df['user'].str.split('/').str[1]\<close>. The accessor
  \<^verbatim>\<open>.str[1]\<close> gives a missing value where the list has no element 1.
\<close>

definition extract_user_id :: "string \<Rightarrow> string option" where
  "extract_user_id user =
     (let parts = split_str ''/'' user
      in if 1 < length parts then Some (parts ! 1) else None)"

text \<open>
  Lines 100, 108 and 117: \<^verbatim>\<open>pd.merge(df, user_role_map, on='user_id', how='left')\<close>
  gives a row one copy for each row of the map with its \<open>user_id\<close>, in the map's order,
  and one copy with a missing role when there is none;
  \<^verbatim>\<open>.fillna({'role': 'Unknown'})\<close> then fills the missing roles.
\<close>

definition merge_roles :: "role_map \<Rightarrow> string option \<Rightarrow> string option list" where
  "merge_roles user_role_map uid =
     (case filter (\<lambda>(u, r). Some u = uid) user_role_map of
        [] \<Rightarrow> [None]
      | ms \<Rightarrow> map (\<lambda>(u, r). Some r) ms)"

definition fillna_role :: "string option \<Rightarrow> string" where
  "fillna_role r = (case r of None \<Rightarrow> ''Unknown'' | Some x \<Rightarrow> x)"

text \<open>
  The three lines the blocks share (99 to 101, 107 to 109, 116 to 118): every row with
  its \<open>user_id\<close>, \<open>role\<close> and \<open>timestamp\<close>. When a frame has rows and none of them
  has a \<open>user_id\<close>, the new column holds floats only, and \<^verbatim>\<open>pd.merge\<close> refuses to
  join it with the strings of a role map that has rows: it raises \<open>ValueError\<close>. (With
  an empty frame or an empty role map it does not compare the two columns.)
  \<^verbatim>\<open>pd.to_datetime\<close> converts the whole column and raises when one cell does not
  parse.
\<close>

definition enrich ::
  "(string \<Rightarrow> timestamp option) \<Rightarrow> role_map \<Rightarrow> ('row \<Rightarrow> string) \<Rightarrow> ('row \<Rightarrow> string) \<Rightarrow> 'row list
     \<Rightarrow> error + ('row \<times> string option \<times> string \<times> timestamp) list" where
  "enrich to_datetime user_role_map date_of user_of df =
     (if df \<noteq> [] \<and> user_role_map \<noteq> []
         \<and> list_all (\<lambda>row. extract_user_id (user_of row) = None) df
      then Inl ValueError
      else
        let merged =
              concat (map (\<lambda>row. map (\<lambda>r. (row, extract_user_id (user_of row), fillna_role r))
                                     (merge_roles user_role_map (extract_user_id (user_of row)))) df)
        in if list_all (\<lambda>(row, uid, r). to_datetime (date_of row) \<noteq> None) merged
           then Inr (map (\<lambda>(row, uid, r). (row, uid, r, the (to_datetime (date_of row)))) merged)
           else Inl ValueError)"

text \<open>Lines 98 to 103.\<close>

definition logon_events ::
  "(string \<Rightarrow> timestamp option) \<Rightarrow> role_map \<Rightarrow> activity_row list \<Rightarrow> error + event list" where
  "logon_events to_datetime user_role_map logon_df =
     (case enrich to_datetime user_role_map (\<lambda>(d, u, p, a). d) (\<lambda>(d, u, p, a). u) logon_df of
        Inl e \<Rightarrow> Inl e
      | Inr rows \<Rightarrow>
          Inr (map (\<lambda>((d, u, p, a), uid, r, t).
                      \<lparr>timestamp = t, user_id = uid, role = r, pc = p,
                       activity_type = (if a = ''Logon'' then ''logon'' else ''logoff''),
                       url = None\<rparr>) rows))"

text \<open>Lines 106 to 111.\<close>

definition device_events ::
  "(string \<Rightarrow> timestamp option) \<Rightarrow> role_map \<Rightarrow> activity_row list \<Rightarrow> error + event list" where
  "device_events to_datetime user_role_map device_df =
     (case enrich to_datetime user_role_map (\<lambda>(d, u, p, a). d) (\<lambda>(d, u, p, a). u) device_df of
        Inl e \<Rightarrow> Inl e
      | Inr rows \<Rightarrow>
          Inr (map (\<lambda>((d, u, p, a), uid, r, t).
                      \<lparr>timestamp = t, user_id = uid, role = r, pc = p,
                       activity_type = (if a = ''Connect'' then ''device_connect'' else ''device_disconnect''),
                       url = None\<rparr>) rows))"

text \<open>Lines 114 to 120.\<close>

definition http_events ::
  "(string \<Rightarrow> timestamp option) \<Rightarrow> role_map \<Rightarrow> http_row list \<Rightarrow> error + event list" where
  "http_events to_datetime user_role_map http_df =
     (case enrich to_datetime user_role_map (\<lambda>(i, d, u, p, l, c). d) (\<lambda>(i, d, u, p, l, c). u) http_df of
        Inl e \<Rightarrow> Inl e
      | Inr rows \<Rightarrow>
          Inr (map (\<lambda>((i, d, u, p, l, c), uid, r, t).
                      \<lparr>timestamp = t, user_id = uid, role = r, pc = p,
                       activity_type = ''http'', url = Some l\<rparr>) rows))"

text \<open>
  Line 124: \<^verbatim>\<open>sort_values(by=['user_id', 'timestamp'])\<close>. With more than one key
  pandas sorts through its lexicographic indexer, a stable sort (the \<^verbatim>\<open>kind\<close>
  argument only applies to a single key), with the rows whose key is missing last.
\<close>

definition sort_values_key :: "event \<Rightarrow> bool \<times> string \<times> timestamp" where
  "sort_values_key e =
     (user_id e = None, (case user_id e of None \<Rightarrow> [] | Some u \<Rightarrow> u), timestamp e)"

definition sort_values :: "event list \<Rightarrow> event list" where
  "sort_values df = sort_key sort_values_key df"

text \<open>Lines 123 and 124: the Event Merger.\<close>

definition merge_events :: "event list \<Rightarrow> event list \<Rightarrow> event list \<Rightarrow> event list" where
  "merge_events logon device http = sort_values (logon @ device @ http)"

text \<open>
  Line 130: \<^verbatim>\<open>groupby(['user_id', 'date_only'])\<close> has one group for each key that
  occurs, in ascending order of the keys; rows with a missing key are in no group, and a
  group keeps its rows in the order of the frame. \<^verbatim>\<open>.apply\<close> calls the function on
  each group in turn. When there is no group at all, \<^verbatim>\<open>.apply\<close> returns an empty
  frame instead of a series, and \<^verbatim>\<open>reset_index(name='narrative')\<close>, which only a
  series accepts, raises \<open>TypeError\<close>.
\<close>

definition group_keys :: "event list \<Rightarrow> (string \<times> int) list" where
  "group_keys df =
     sort (remdups (List.map_filter
       (\<lambda>e. map_option (\<lambda>u. (u, date_only (timestamp e))) (user_id e)) df))"

definition get_group :: "event list \<Rightarrow> string \<times> int \<Rightarrow> event list" where
  "get_group df k =
     filter (\<lambda>e. user_id e = Some (fst k) \<and> date_only (timestamp e) = snd k) df"

fun apply_groups ::
  "(event list \<Rightarrow> error + string) \<Rightarrow> event list \<Rightarrow> (string \<times> int) list
     \<Rightarrow> error + (int \<times> string \<times> string) list" where
  "apply_groups f df [] = Inr []"
| "apply_groups f df (k # ks) =
     (case f (get_group df k) of
        Inl e \<Rightarrow> Inl e
      | Inr narrative \<Rightarrow>
          (case apply_groups f df ks of
             Inl e \<Rightarrow> Inl e
           | Inr out \<Rightarrow> Inr ((snd k, fst k, narrative) # out)))"

text \<open>
  Lines 90 to 136. The result has the columns \<open>(date, user, narrative)\<close>.
\<close>

definition generate_narratives ::
  "(string \<Rightarrow> timestamp option) \<Rightarrow> role_map \<Rightarrow> activity_row list \<Rightarrow> activity_row list
     \<Rightarrow> http_row list \<Rightarrow> error + (int \<times> string \<times> string) list" where
  "generate_narratives to_datetime user_role_map logon_df device_df http_df =
     (case logon_events to_datetime user_role_map logon_df of
        Inl e \<Rightarrow> Inl e
      | Inr logon \<Rightarrow>
     (case device_events to_datetime user_role_map device_df of
        Inl e \<Rightarrow> Inl e
      | Inr device \<Rightarrow>
     (case http_events to_datetime user_role_map http_df of
        Inl e \<Rightarrow> Inl e
      | Inr http \<Rightarrow>
          (let final_df = merge_events logon device http
           in if group_keys final_df = [] then Inl TypeError
              else apply_groups create_summary_from_events final_df (group_keys final_df)))))"

section \<open>Notions used to state the properties\<close>

text \<open>The test of lines 69 and 80.\<close>

definition is_http :: "event \<Rightarrow> bool" where
  "is_http e = (activity_type e = ''http'')"

text \<open>
  The tie-break the specification asks of the header's pc, in its own words: scanning the
  values in bucket order, the first value whose running count reaches the maximum count.
\<close>

definition spec_first_reaching_max :: "'a list \<Rightarrow> 'a option" where
  "spec_first_reaching_max xs =
     (let m = fold max (map (count_list xs) xs) 0
      in map_option (\<lambda>i. xs ! i)
           (List.find (\<lambda>i. count_list (take (Suc i) xs) (xs ! i) = m) [0..<length xs]))"



text \<open>
  The web activity runs of a bucket, in the glossary's words: the maximal contiguous
  subsequences of http events. A web-summary sentence is recognised by how it starts;
  neither the header nor a sentence of a discrete event starts this way.
\<close>

function http_runs :: "event list \<Rightarrow> event list list" where
  "http_runs [] = []"
| "http_runs (e # es) =
     (if is_http e then (e # takeWhile is_http es) # http_runs (dropWhile is_http es)
      else http_runs es)"
  by pat_completeness auto
termination
  by (relation "measure length") (auto simp: length_dropWhile_le less_Suc_eq_le)

definition is_web_summary :: "string \<Rightarrow> bool" where
  "is_web_summary s = prefix ''Between '' s"

text \<open>
  The sentence of a discrete event, by the table of the specification: one sentence for
  each of the four activity types, none for any other type.
\<close>

definition discrete_sentence :: "event \<Rightarrow> string list" where
  "discrete_sentence e =
     (if activity_type e = ''logon'' then [''Logged on at '' @ strftime_HMS (timestamp e) @ ''.'']
      else if activity_type e = ''logoff'' then [''Logged off at '' @ strftime_HMS (timestamp e) @ ''.'']
      else if activity_type e = ''device_connect''
        then [''Connected a USB device at '' @ strftime_HMS (timestamp e) @ ''.'']
      else if activity_type e = ''device_disconnect''
        then [''Disconnected a USB device at '' @ strftime_HMS (timestamp e) @ ''.'']
      else [])"

text \<open>
  The two-state machine of the specification, as the segments of a bucket: a maximal run
  of consecutive http events (what \<open>BUFFERING\<close> accumulates) or a single event that is not
  http (what \<open>SCANNING\<close> emits), in the order of the bucket. A run gives its one flush
  sentence, a discrete event its own sentence.
\<close>

function segments :: "event list \<Rightarrow> (event list + event) list" where
  "segments [] = []"
| "segments (e # es) =
     (if is_http e then Inl (e # takeWhile is_http es) # segments (dropWhile is_http es)
      else Inr e # segments es)"
  by pat_completeness auto
termination
  by (relation "measure length") (auto simp: length_dropWhile_le less_Suc_eq_le)

definition segment_sentences :: "event list + event \<Rightarrow> error + string list" where
  "segment_sentences seg =
     (case seg of
        Inl run \<Rightarrow> (case flush_sentence run of Inl err \<Rightarrow> Inl err | Inr w \<Rightarrow> Inr [w])
      | Inr e \<Rightarrow> Inr (discrete_sentence e))"

text \<open>
  The number of rows the left join of the three blocks makes of a row whose \<open>user_id\<close>
  is \<open>uid\<close>: one for each row of the role map with that user, and one when there is none.
\<close>

definition join_copies :: "role_map \<Rightarrow> string option \<Rightarrow> nat" where
  "join_copies rm uid = max 1 (length (filter (\<lambda>(u, r). Some u = uid) rm))"


section \<open>Domain extraction\<close>


lemma split_str_not_Nil: "split_str sep s \<noteq> []"
  by (induction sep s rule: split_str.induct) (auto split: list.splits)


lemma hd_split_char: "hd (split_str [c] s) = takeWhile (\<lambda>x. x \<noteq> c) s"
  by (induction s) (auto split: list.splits simp: split_str_not_Nil)

lemma py_first_split: "py_first (split_str sep s) = Inr (hd (split_str sep s))"
  using split_str_not_Nil [of sep s] by (auto simp: py_first_def split: list.splits)

lemma py_last_split: "py_last (split_str sep s) = Inr (last (split_str sep s))"
  using split_str_not_Nil [of sep s] by (simp add: py_last_def)

lemma domain_of_eq:
  "domain_of u = Inr (takeWhile (\<lambda>x. x \<noteq> CHR ''/'') (last (split_str ''//'' u)))"
  by (simp add: domain_of_def py_last_split py_first_split hd_split_char)



section \<open>The Event Merger\<close>

lemma merge_events_sorted: "sorted (map sort_values_key (merge_events logon device http))"
  by (simp add: merge_events_def sort_values_def)

lemma set_merge_events: "set (merge_events logon device http) = set (logon @ device @ http)"
  by (simp add: merge_events_def sort_values_def)

text \<open>
  C1. Merge stability: the events that share one \<open>(user_id, timestamp)\<close> are, in the
  merged stream, the same sequence as in the concatenation of the three sources; so any
  two of them keep their relative order.
\<close>

theorem merge_stability:
  "filter (\<lambda>e. user_id e = u \<and> timestamp e = t) (merge_events logon device http)
     = filter (\<lambda>e. user_id e = u \<and> timestamp e = t) (logon @ device @ http)"
proof -
  let ?k = "(u = None, (case u of None \<Rightarrow> [] | Some v \<Rightarrow> v), t)"
  have eq: "(\<lambda>e. user_id e = u \<and> timestamp e = t) = (\<lambda>e. sort_values_key e = ?k)"
    by (rule ext) (auto simp: sort_values_key_def split: option.splits)
  show ?thesis
    unfolding eq merge_events_def sort_values_def by (rule sort_key_stable)
qed

section \<open>The header\<close>

lemma fold_max_eq: "fold max ys (a::nat) = Max (insert a (set ys))"
  using Max.set_eq_fold [of a ys] by simp

lemma count_le_fold_max: "count_list xs x \<le> fold max (map (count_list xs) xs) 0"
proof (cases "x \<in> set xs")
  case True
  then have "count_list xs x \<in> insert 0 (set (map (count_list xs) xs))" by simp
  then show ?thesis unfolding fold_max_eq by (intro Max_ge) simp_all
next
  case False
  then show ?thesis by (simp add: count_list_0_iff)
qed

lemma fold_max_attained:
  assumes "xs \<noteq> []"
  shows "\<exists>x \<in> set xs. count_list xs x = fold max (map (count_list xs) xs) 0"
proof -
  let ?M = "fold max (map (count_list xs) xs) 0"
  have "?M \<in> insert 0 (set (map (count_list xs) xs))"
    unfolding fold_max_eq by (intro Max_in) simp_all
  moreover have "0 < count_list xs (hd xs)"
    using assms by (cases xs) simp_all
  then have "0 < ?M"
    using count_le_fold_max [of xs "hd xs"] by linarith
  ultimately show ?thesis by auto
qed

lemma mode_set:
  "set (mode xs) = {x \<in> set xs. count_list xs x = fold max (map (count_list xs) xs) 0}"
  by (auto simp: mode_def Let_def)

lemma mode_not_Nil: "xs \<noteq> [] \<Longrightarrow> mode xs \<noteq> []"
  using fold_max_attained [of xs] mode_set [of xs] by (metis (mono_tags, lifting) empty_iff mem_Collect_eq set_empty)

lemma sorted_mode: "sorted (mode xs)"
  by (simp add: mode_def Let_def)

lemma hd_mode:
  assumes "xs \<noteq> []"
  shows "hd (mode xs) \<in> set xs"
    and "count_list xs q \<le> count_list xs (hd (mode xs))"
    and "count_list xs q = count_list xs (hd (mode xs)) \<Longrightarrow> hd (mode xs) \<le> q"
proof -
  let ?M = "fold max (map (count_list xs) xs) 0"
  have ne: "mode xs \<noteq> []" using assms by (rule mode_not_Nil)
  then have "hd (mode xs) \<in> set (mode xs)" by simp
  then have h: "hd (mode xs) \<in> set xs" "count_list xs (hd (mode xs)) = ?M"
    by (simp_all add: mode_set)
  show "hd (mode xs) \<in> set xs" by fact
  show "count_list xs q \<le> count_list xs (hd (mode xs))"
    using count_le_fold_max [of xs q] h(2) by simp
  assume eq: "count_list xs q = count_list xs (hd (mode xs))"
  have "q \<in> set xs"
  proof (rule ccontr)
    assume "q \<notin> set xs"
    then have "count_list xs q = 0" by (simp add: count_list_0_iff)
    with eq have "count_list xs (hd (mode xs)) = 0" by simp
    then show False using h(1) by (simp add: count_list_0_iff)
  qed
  then have "q \<in> set (mode xs)" using eq h(2) by (simp add: mode_set)
  then show "hd (mode xs) \<le> q"
    using sorted_mode [of xs] ne by (cases "mode xs") auto
qed


lemma flush_web_buffer_prefix:
  "flush_web_buffer (ps, buf) = Inr (ps', buf') \<Longrightarrow> prefix ps ps'"
  by (auto simp: flush_web_buffer_def split: if_splits sum.splits)

lemma emit_event_prefix: "emit_event e (ps, buf) = (ps', buf') \<Longrightarrow> prefix ps ps'"
  by (auto simp: emit_event_def Let_def split: if_splits)

lemma process_events_prefix:
  "process_events es (ps, buf) = Inr (ps', buf') \<Longrightarrow> prefix ps ps'"
proof (induction es arbitrary: ps buf)
  case Nil
  then show ?case by simp
next
  case (Cons e es)
  from Cons.prems obtain ps1 buf1 where
    f: "(if activity_type e \<noteq> ''http'' then flush_web_buffer (ps, buf) else Inr (ps, buf)) = Inr (ps1, buf1)"
    and r: "process_events es (emit_event e (ps1, buf1)) = Inr (ps', buf')"
    by (auto split: sum.splits)
  obtain ps2 buf2 where e: "emit_event e (ps1, buf1) = (ps2, buf2)"
    by (cases "emit_event e (ps1, buf1)")
  have "prefix ps ps1"
    using f flush_web_buffer_prefix by (auto split: if_splits)
  moreover have "prefix ps1 ps2"
    using e by (rule emit_event_prefix)
  moreover have "prefix ps2 ps'"
    using r e Cons.IH by simp
  ultimately show ?case
    by (meson prefix_order.trans)
qed

lemma summary_parts_hd:
  assumes "summary_parts events = Inr parts"
  shows "\<exists>p. header_pc events = Inr p
             \<and> hd parts = header_sentence (fmt_missing (user_id (hd events))) (role (hd events)) p"
proof -
  from assms obtain p ps1 buf1 buf2 where
    p: "header_pc events = Inr p"
    and run: "process_events events
          ([header_sentence (fmt_missing (user_id (hd events))) (role (hd events)) p], []) = Inr (ps1, buf1)"
    and fl: "flush_web_buffer (ps1, buf1) = Inr (parts, buf2)"
    by (auto simp: summary_parts_def Let_def split: sum.splits)
  have "prefix [header_sentence (fmt_missing (user_id (hd events))) (role (hd events)) p] parts"
    using process_events_prefix [OF run] flush_web_buffer_prefix [OF fl]
    by (meson prefix_order.trans)
  then show ?thesis
    using p by (auto simp: prefix_def)
qed

text \<open>
  C2, as the code has it. For a bucket that is not empty the pc of the header sentence is
  a most frequent value of the pc column; when several values tie for the highest count,
  it is the smallest of them in string order (\<^verbatim>\<open>mode()\<close> returns the modes sorted
  and the code takes the first).
\<close>

theorem header_pc_mode:
  assumes "events \<noteq> []" and "summary_parts events = Inr parts"
  shows "\<exists>p. hd parts = header_sentence (fmt_missing (user_id (hd events))) (role (hd events)) p
             \<and> p \<in> set (map pc events)
             \<and> (\<forall>q. count_list (map pc events) q \<le> count_list (map pc events) p)
             \<and> (\<forall>q. count_list (map pc events) q = count_list (map pc events) p \<longrightarrow> p \<le> q)"
proof -
  from summary_parts_hd [OF assms(2)] obtain p where
    p: "header_pc events = Inr p"
    and h: "hd parts = header_sentence (fmt_missing (user_id (hd events))) (role (hd events)) p"
    by blast
  have ne: "map pc events \<noteq> []" using assms(1) by simp
  have "p = hd (mode (map pc events))"
    using p ne mode_not_Nil [OF ne] by (auto simp: header_pc_def py_first_def split: list.splits)
  then show ?thesis
    using h hd_mode [OF ne] by blast
qed

theorem header_pc_mode_witness:
  "[\<lparr>timestamp = 28800000000000, user_id = Some ''u123'', role = ''ITAdmin'', pc = ''PC-02'',
      activity_type = ''logon'', url = None\<rparr>,
    \<lparr>timestamp = 32400000000000, user_id = Some ''u123'', role = ''ITAdmin'', pc = ''PC-01'',
      activity_type = ''logoff'', url = None\<rparr>] \<noteq> []
   \<and> summary_parts
     [\<lparr>timestamp = 28800000000000, user_id = Some ''u123'', role = ''ITAdmin'', pc = ''PC-02'',
       activity_type = ''logon'', url = None\<rparr>,
      \<lparr>timestamp = 32400000000000, user_id = Some ''u123'', role = ''ITAdmin'', pc = ''PC-01'',
       activity_type = ''logoff'', url = None\<rparr>]
     = Inr [''User u123 (Role: ITAdmin) on PC-01:'', ''Logged on at 08:00:00.'', ''Logged off at 09:00:00.'']
   \<and> (\<exists>p. ''User u123 (Role: ITAdmin) on PC-01:'' = header_sentence ''u123'' ''ITAdmin'' p
          \<and> p \<in> {''PC-02'', ''PC-01''}
          \<and> (\<forall>q. count_list [''PC-02'', ''PC-01''] q \<le> count_list [''PC-02'', ''PC-01''] p)
          \<and> (\<forall>q. count_list [''PC-02'', ''PC-01''] q = count_list [''PC-02'', ''PC-01''] p \<longrightarrow> p \<le> q))"
proof -
  let ?bucket = "[\<lparr>timestamp = 28800000000000, user_id = Some ''u123'', role = ''ITAdmin'', pc = ''PC-02'',
       activity_type = ''logon'', url = None\<rparr>,
      \<lparr>timestamp = 32400000000000, user_id = Some ''u123'', role = ''ITAdmin'', pc = ''PC-01'',
       activity_type = ''logoff'', url = None\<rparr>]"
  have t: "strftime_HMS 28800000000000 = ''08:00:00''" "strftime_HMS 32400000000000 = ''09:00:00''"
    by (simp_all add: strftime_HMS_def two_digits_def digit_char_def)
  have m: "mode [''PC-02'', ''PC-01''] = [''PC-01'', ''PC-02'']"
    by code_simp
  have sp: "summary_parts ?bucket
     = Inr [''User u123 (Role: ITAdmin) on PC-01:'', ''Logged on at 08:00:00.'', ''Logged off at 09:00:00.'']"
    by (simp add: summary_parts_def header_pc_def m py_first_def fmt_missing_def header_sentence_def
        flush_web_buffer_def emit_event_def t)
  have ne: "?bucket \<noteq> []" by simp
  from header_pc_mode [OF ne sp] show ?thesis
    using sp by (simp add: fmt_missing_def)
qed

text \<open>
  C2 as stated fails: in the bucket with the pcs PC-02, PC-01 (in this order) both values
  have count 1, the first value to reach that count in bucket order is PC-02, and the
  header shows PC-01.
\<close>

theorem header_pc_tie_break_counterexample:
  "summary_parts
     [\<lparr>timestamp = 28800000000000, user_id = Some ''u123'', role = ''ITAdmin'', pc = ''PC-02'',
       activity_type = ''logon'', url = None\<rparr>,
      \<lparr>timestamp = 32400000000000, user_id = Some ''u123'', role = ''ITAdmin'', pc = ''PC-01'',
       activity_type = ''logon'', url = None\<rparr>]
   = Inr [''User u123 (Role: ITAdmin) on PC-01:'', ''Logged on at 08:00:00.'', ''Logged on at 09:00:00.'']
   \<and> spec_first_reaching_max
     (map pc
       [\<lparr>timestamp = 28800000000000, user_id = Some ''u123'', role = ''ITAdmin'', pc = ''PC-02'',
         activity_type = ''logon'', url = None\<rparr>,
        \<lparr>timestamp = 32400000000000, user_id = Some ''u123'', role = ''ITAdmin'', pc = ''PC-01'',
         activity_type = ''logon'', url = None\<rparr>])
   = Some ''PC-02''"
proof -
  have t: "strftime_HMS 28800000000000 = ''08:00:00''" "strftime_HMS 32400000000000 = ''09:00:00''"
    by (simp_all add: strftime_HMS_def two_digits_def digit_char_def)
  have m: "mode [''PC-02'', ''PC-01''] = [''PC-01'', ''PC-02'']"
    by code_simp
  show ?thesis
    by (simp add: summary_parts_def header_pc_def m py_first_def fmt_missing_def header_sentence_def
        flush_web_buffer_def emit_event_def t spec_first_reaching_max_def)
qed

section \<open>The two-state reduction\<close>

lemma emit_event_http:
  "activity_type e = ''http'' \<Longrightarrow> emit_event e (parts, buf) = (parts, buf @ [e])"
  by (simp add: emit_event_def)

lemma emit_event_discrete:
  "activity_type e \<noteq> ''http'' \<Longrightarrow> emit_event e (parts, buf) = (parts @ discrete_sentence e, buf)"
  by (simp add: emit_event_def discrete_sentence_def)

lemma process_events_http_run:
  "list_all is_http hs \<Longrightarrow> process_events (hs @ rest) (parts, buf) = process_events rest (parts, buf @ hs)"
  by (induction hs arbitrary: buf) (simp_all add: is_http_def emit_event_http)

lemma flush_web_buffer_pending:
  "buf \<noteq> [] \<Longrightarrow> flush_sentence buf = Inr w \<Longrightarrow> flush_web_buffer (parts, buf) = Inr (parts @ [w], [])"
  by (simp add: flush_web_buffer_def)

lemma header_pc_Inr: "events \<noteq> [] \<Longrightarrow> \<exists>p. header_pc events = Inr p"
  using mode_not_Nil [of "map pc events"]
  by (auto simp: header_pc_def py_first_def split: list.splits)

lemma segments_all_http: "list_all is_http buf \<Longrightarrow> buf \<noteq> [] \<Longrightarrow> segments buf = [Inl buf]"
  by (cases buf) (auto simp: list_all_iff takeWhile_eq_all_conv[THEN iffD2] dropWhile_eq_Nil_conv[THEN iffD2])

lemma segments_run_then_other:
  "list_all is_http buf \<Longrightarrow> buf \<noteq> [] \<Longrightarrow> \<not> is_http e
   \<Longrightarrow> segments (buf @ e # es) = Inl buf # Inr e # segments es"
  by (cases buf) (auto simp: list_all_iff takeWhile_append2 dropWhile_append2)

lemma flush_web_buffer_result:
  assumes "flush_web_buffer (ps, buf) = Inr (ps', buf')"
  shows "buf' = [] \<and> (if buf = [] then ps' = ps else \<exists>s. flush_sentence buf = Inr s \<and> ps' = ps @ [s])"
  using assms by (auto simp: flush_web_buffer_def split: if_splits sum.splits)

lemma process_segments:
  assumes "list_all is_http buf"
    and "process_events es (ps, buf) = Inr (ps1, buf1)"
    and "flush_web_buffer (ps1, buf1) = Inr (ps2, buf2)"
  shows "\<exists>chunks. map segment_sentences (segments (buf @ es)) = map Inr chunks
                  \<and> ps2 = ps @ concat chunks"
  using assms
proof (induction es arbitrary: ps buf)
  case Nil
  then have f: "flush_web_buffer (ps, buf) = Inr (ps2, buf2)" by simp
  show ?case
  proof (cases "buf = []")
    case True
    then show ?thesis using flush_web_buffer_result [OF f] by simp
  next
    case False
    then obtain s where s: "flush_sentence buf = Inr s" "ps2 = ps @ [s]"
      using flush_web_buffer_result [OF f] by auto
    have "map segment_sentences (segments (buf @ [])) = map Inr [[s]]"
      using False Nil.prems(1) s(1) by (simp add: segments_all_http segment_sentences_def)
    moreover have "ps2 = ps @ concat [[s]]" using s(2) by simp
    ultimately show ?thesis by blast
  qed
next
  case (Cons e es)
  show ?case
  proof (cases "is_http e")
    case True
    then have "process_events es (ps, buf @ [e]) = Inr (ps1, buf1)"
      using Cons.prems(2) by (simp add: is_http_def emit_event_def)
    moreover have "list_all is_http (buf @ [e])"
      using True Cons.prems(1) by simp
    ultimately show ?thesis
      using Cons.IH [of "buf @ [e]" ps] Cons.prems(3) by simp
  next
    case False
    then have other: "activity_type e \<noteq> ''http''" by (simp add: is_http_def)
    then obtain psf buff where
      f: "flush_web_buffer (ps, buf) = Inr (psf, buff)"
      and r: "process_events es (emit_event e (psf, buff)) = Inr (ps1, buf1)"
      using Cons.prems(2) by (auto split: sum.splits)
    from flush_web_buffer_result [OF f] have b: "buff = []" by simp
    have e: "emit_event e (psf, []) = (psf @ discrete_sentence e, [])"
      using other by (rule emit_event_discrete)
    from Cons.IH [of "[]" "psf @ discrete_sentence e"] r b e Cons.prems(3) obtain rest where
      n: "map segment_sentences (segments es) = map Inr rest"
      "ps2 = (psf @ discrete_sentence e) @ concat rest"
      by auto
    have de: "segment_sentences (Inr e) = Inr (discrete_sentence e)"
      by (simp add: segment_sentences_def)
    show ?thesis
    proof (cases "buf = []")
      case True
      then have "psf = ps" using flush_web_buffer_result [OF f] by simp
      then have "ps2 = ps @ concat (discrete_sentence e # rest)" using n(2) by simp
      moreover have "map segment_sentences (segments (buf @ e # es)) = map Inr (discrete_sentence e # rest)"
        using True False n(1) de by simp
      ultimately show ?thesis by blast
    next
      case nonempty: False
      then obtain s where s: "flush_sentence buf = Inr s" "psf = ps @ [s]"
        using flush_web_buffer_result [OF f] by auto
      have "ps2 = ps @ concat ([s] # discrete_sentence e # rest)"
        using n(2) s(2) by simp
      moreover have "map segment_sentences (segments (buf @ e # es))
          = map Inr ([s] # discrete_sentence e # rest)"
        using n(1) s(1) nonempty False Cons.prems(1) de
        by (simp add: segments_run_then_other segment_sentences_def)
      ultimately show ?thesis by blast
    qed
  qed
qed

lemma summary_parts_segments:
  assumes "summary_parts events = Inr parts"
  shows "\<exists>p chunks. header_pc events = Inr p
           \<and> map segment_sentences (segments events) = map Inr chunks
           \<and> parts = header_sentence (fmt_missing (user_id (hd events))) (role (hd events)) p
                       # concat chunks"
proof -
  from assms obtain p ps1 buf1 buf2 where
    p: "header_pc events = Inr p"
    and run: "process_events events
          ([header_sentence (fmt_missing (user_id (hd events))) (role (hd events)) p], []) = Inr (ps1, buf1)"
    and fl: "flush_web_buffer (ps1, buf1) = Inr (parts, buf2)"
    by (auto simp: summary_parts_def Let_def split: sum.splits)
  from process_segments [OF _ run fl] p show ?thesis
    by auto
qed


lemma segments_process:
  assumes "list_all is_http buf"
    and "map segment_sentences (segments (buf @ es)) = map Inr chunks"
  shows "\<exists>ps1 buf1. process_events es (ps, buf) = Inr (ps1, buf1)
                   \<and> flush_web_buffer (ps1, buf1) = Inr (ps @ concat chunks, [])"
  using assms
proof (induction es arbitrary: ps buf chunks)
  case Nil
  show ?case
  proof (cases "buf = []")
    case True
    then show ?thesis using Nil.prems(2) by (simp add: flush_web_buffer_def)
  next
    case False
    then have "map segment_sentences [Inl buf] = map Inr chunks"
      using Nil.prems by (simp add: segments_all_http)
    then obtain w where "flush_sentence buf = Inr w" "chunks = [[w]]"
      by (auto simp: segment_sentences_def split: sum.splits)
    then show ?thesis
      using False by (simp add: flush_web_buffer_def)
  qed
next
  case (Cons e es)
  show ?case
  proof (cases "is_http e")
    case True
    then have "list_all is_http (buf @ [e])"
      using Cons.prems(1) by simp
    moreover have "map segment_sentences (segments ((buf @ [e]) @ es)) = map Inr chunks"
      using Cons.prems(2) by simp
    ultimately obtain ps1 buf1 where
      "process_events es (ps, buf @ [e]) = Inr (ps1, buf1)"
      "flush_web_buffer (ps1, buf1) = Inr (ps @ concat chunks, [])"
      using Cons.IH [of "buf @ [e]" chunks ps] by blast
    then show ?thesis
      using True by (simp add: is_http_def emit_event_def)
  next
    case False
    then have other: "activity_type e \<noteq> ''http''" by (simp add: is_http_def)
    have de: "segment_sentences (Inr e) = Inr (discrete_sentence e)"
      by (simp add: segment_sentences_def)
    show ?thesis
    proof (cases "buf = []")
      case True
      then have "Inr (discrete_sentence e) # map segment_sentences (segments es) = map Inr chunks"
        using Cons.prems(2) False de by simp
      then obtain rest where c: "chunks = discrete_sentence e # rest"
        and r: "map segment_sentences (segments ([] @ es)) = map Inr rest"
        by (cases chunks) auto
      from Cons.IH [of "[]" rest "ps @ discrete_sentence e"] r obtain ps1 buf1 where
        "process_events es (ps @ discrete_sentence e, []) = Inr (ps1, buf1)"
        "flush_web_buffer (ps1, buf1) = Inr ((ps @ discrete_sentence e) @ concat rest, [])"
        by auto
      then show ?thesis
        using True other c by (simp add: flush_web_buffer_def emit_event_discrete)
    next
      case nonempty: False
      then have "segment_sentences (Inl buf) # Inr (discrete_sentence e)
            # map segment_sentences (segments es) = map Inr chunks"
        using Cons.prems False de by (simp add: segments_run_then_other)
      then obtain c1 rest where c: "chunks = c1 # discrete_sentence e # rest"
        and b: "segment_sentences (Inl buf) = Inr c1"
        and r: "map segment_sentences (segments ([] @ es)) = map Inr rest"
        by (cases chunks; cases "tl chunks") auto
      from b obtain w where w: "flush_sentence buf = Inr w" "c1 = [w]"
        by (auto simp: segment_sentences_def split: sum.splits)
      from Cons.IH [of "[]" rest "(ps @ [w]) @ discrete_sentence e"] r obtain ps1 buf1 where
        "process_events es ((ps @ [w]) @ discrete_sentence e, []) = Inr (ps1, buf1)"
        "flush_web_buffer (ps1, buf1) = Inr (((ps @ [w]) @ discrete_sentence e) @ concat rest, [])"
        by auto
      then show ?thesis
        using nonempty other c w by (simp add: flush_web_buffer_def emit_event_discrete)
    qed
  qed
qed

lemma segments_summary_parts:
  assumes "header_pc events = Inr p"
    and "map segment_sentences (segments events) = map Inr chunks"
  shows "summary_parts events
         = Inr (header_sentence (fmt_missing (user_id (hd events))) (role (hd events)) p
                # concat chunks)"
proof -
  from segments_process [of "[]" events chunks
      "[header_sentence (fmt_missing (user_id (hd events))) (role (hd events)) p]"] assms(2)
  obtain ps1 buf1 where
    "process_events events
       ([header_sentence (fmt_missing (user_id (hd events))) (role (hd events)) p], []) = Inr (ps1, buf1)"
    "flush_web_buffer (ps1, buf1)
       = Inr ([header_sentence (fmt_missing (user_id (hd events))) (role (hd events)) p] @ concat chunks, [])"
    by auto
  then show ?thesis
    using assms(1) by (simp add: summary_parts_def Let_def)
qed

lemma process_events_append:
  "process_events (xs @ ys) st =
     (case process_events xs st of Inl err \<Rightarrow> Inl err | Inr st' \<Rightarrow> process_events ys st')"
  by (induction xs arbitrary: st) (auto split: sum.splits)

lemma process_events_last_other:
  "es \<noteq> [] \<Longrightarrow> \<not> is_http (last es) \<Longrightarrow> process_events es st = Inr (ps, buf) \<Longrightarrow> buf = []"
proof (induction es arbitrary: st)
  case Nil
  then show ?case by simp
next
  case (Cons e es)
  show ?case
  proof (cases "es = []")
    case True
    with Cons.prems have other: "activity_type e \<noteq> ''http''" by (simp add: is_http_def)
    obtain a b where st: "st = (a, b)" by (cases st)
    from Cons.prems(3) True other st obtain psf buff where
      f: "flush_web_buffer (a, b) = Inr (psf, buff)"
      and r: "emit_event e (psf, buff) = (ps, buf)"
      by (auto split: sum.splits)
    from flush_web_buffer_result [OF f] have "buff = []" by simp
    then show ?thesis
      using r other by (simp add: emit_event_discrete)
  next
    case False
    from Cons.prems(3) obtain st' where "process_events es st' = Inr (ps, buf)"
      by (auto split: sum.splits if_splits)
    with Cons.IH [OF False] Cons.prems(2) False show ?thesis by simp
  qed
qed

lemma trailing_run_flushed:
  assumes "list_all is_http hs" and "hs \<noteq> []" and "pre = [] \<or> \<not> is_http (last pre)"
    and "summary_parts (pre @ hs) = Inr narrative_parts"
  shows "flush_sentence hs = Inr (last narrative_parts)"
proof -
  let ?events = "pre @ hs"
  from assms(4) obtain p ps1 buf1 buf2 where
    run: "process_events ?events
          ([header_sentence (fmt_missing (user_id (hd ?events))) (role (hd ?events)) p], []) = Inr (ps1, buf1)"
    and fl: "flush_web_buffer (ps1, buf1) = Inr (narrative_parts, buf2)"
    by (auto simp: summary_parts_def Let_def split: sum.splits)
  let ?st0 = "([header_sentence (fmt_missing (user_id (hd ?events))) (role (hd ?events)) p], [])
              :: summarizer_state"
  from run obtain ps buf where
    pre: "process_events pre ?st0 = Inr (ps, buf)"
    and hs: "process_events hs (ps, buf) = Inr (ps1, buf1)"
    by (auto simp: process_events_append split: sum.splits)
  have "buf = []"
  proof (cases "pre = []")
    case True
    then show ?thesis using pre by simp
  next
    case False
    then show ?thesis using assms(3) pre process_events_last_other by blast
  qed
  then have "ps1 = ps" "buf1 = hs"
    using hs process_events_http_run [OF assms(1), of "[]" ps buf] by simp_all
  then have "flush_web_buffer (ps, hs) = Inr (narrative_parts, buf2)"
    using fl by simp
  from flush_web_buffer_result [OF this] assms(2) show ?thesis
    by auto
qed

text \<open>
  C5. Buffering exit order. A run \<open>hs\<close> of http events only grows the buffer; on the
  first event \<open>e\<close> that is not http the pending buffer is flushed, its sentence \<open>w\<close>
  appended and the buffer emptied, before \<open>e\<close>'s own sentence is emitted. The Summarizer
  returns exactly when the header pc and every segment of the bucket have a sentence, and
  then the narrative is the header followed by the sentences of the segments in order: so a
  run is flushed where it ends, before the sentence of the event that ends it, and a run
  that ends the bucket is flushed at the end of the sequence, its sentence being the last
  one. The bucket logon at 08:00, http at 08:01, http at 08:02, logoff at 08:10 (whatever
  the other fields of the four events) gives the header and exactly three sentences: the
  logon sentence, one web summary of the two visits, the logoff sentence.
\<close>

theorem buffering_exit_order:
  "(list_all is_http hs \<and> activity_type e \<noteq> ''http'' \<and> buf @ hs \<noteq> []
      \<and> flush_sentence (buf @ hs) = Inr w \<longrightarrow>
      process_events (hs @ e # rest) (parts, buf)
        = process_events rest (parts @ [w] @ discrete_sentence e, []))
   \<and> (summary_parts events = Inr narrative_parts \<longleftrightarrow>
        (\<exists>p chunks. header_pc events = Inr p
           \<and> map segment_sentences (segments events) = map Inr chunks
           \<and> narrative_parts
               = header_sentence (fmt_missing (user_id (hd events))) (role (hd events)) p
                 # concat chunks))
   \<and> (list_all is_http hs \<and> hs \<noteq> [] \<and> (pre = [] \<or> \<not> is_http (last pre))
        \<and> summary_parts (pre @ hs) = Inr narrative_parts \<longrightarrow>
        flush_sentence hs = Inr (last narrative_parts))
   \<and> (activity_type l = ''logon'' \<and> strftime_HMS (timestamp l) = ''08:00:00''
        \<and> activity_type h1 = ''http'' \<and> strftime_HMS (timestamp h1) = ''08:01:00'' \<and> url h1 = Some u1
        \<and> activity_type h2 = ''http'' \<and> strftime_HMS (timestamp h2) = ''08:02:00'' \<and> url h2 = Some u2
        \<and> activity_type off = ''logoff'' \<and> strftime_HMS (timestamp off) = ''08:10:00'' \<longrightarrow>
      (\<exists>p tops. summary_parts [l, h1, h2, off]
        = Inr [header_sentence (fmt_missing (user_id l)) (role l) p,
               ''Logged on at 08:00:00.'',
               web_summary_sentence ''08:01:00'' ''08:02:00'' 2 tops,
               ''Logged off at 08:10:00.'']))"
proof (intro conjI impI)
  assume a: "list_all is_http hs \<and> activity_type e \<noteq> ''http'' \<and> buf @ hs \<noteq> []
      \<and> flush_sentence (buf @ hs) = Inr w"
  then have "process_events (hs @ e # rest) (parts, buf) = process_events (e # rest) (parts, buf @ hs)"
    by (simp add: process_events_http_run)
  also have "\<dots> = process_events rest (emit_event e (parts @ [w], []))"
    using a flush_web_buffer_pending [of "buf @ hs" w parts] by simp
  also have "\<dots> = process_events rest (parts @ [w] @ discrete_sentence e, [])"
    using a by (simp add: emit_event_discrete)
  finally show "process_events (hs @ e # rest) (parts, buf)
      = process_events rest (parts @ [w] @ discrete_sentence e, [])" .
next
  show "summary_parts events = Inr narrative_parts \<longleftrightarrow>
        (\<exists>p chunks. header_pc events = Inr p
           \<and> map segment_sentences (segments events) = map Inr chunks
           \<and> narrative_parts
               = header_sentence (fmt_missing (user_id (hd events))) (role (hd events)) p
                 # concat chunks)"
    using summary_parts_segments [of events narrative_parts] segments_summary_parts [of events]
    by blast
next
  assume "list_all is_http hs \<and> hs \<noteq> [] \<and> (pre = [] \<or> \<not> is_http (last pre))
        \<and> summary_parts (pre @ hs) = Inr narrative_parts"
  then show "flush_sentence hs = Inr (last narrative_parts)"
    using trailing_run_flushed [of hs pre narrative_parts] by blast
next
  assume c: "activity_type l = ''logon'' \<and> strftime_HMS (timestamp l) = ''08:00:00''
        \<and> activity_type h1 = ''http'' \<and> strftime_HMS (timestamp h1) = ''08:01:00'' \<and> url h1 = Some u1
        \<and> activity_type h2 = ''http'' \<and> strftime_HMS (timestamp h2) = ''08:02:00'' \<and> url h2 = Some u2
        \<and> activity_type off = ''logoff'' \<and> strftime_HMS (timestamp off) = ''08:10:00''"
  obtain p where p: "header_pc [l, h1, h2, off] = Inr p"
    using header_pc_Inr [of "[l, h1, h2, off]"] by auto
  obtain ds where ds: "domains_of [h1, h2] = Inr ds"
    using c by (simp add: item_domain_def domain_of_eq)
  have w: "flush_sentence [h1, h2]
      = Inr (web_summary_sentence ''08:01:00'' ''08:02:00'' 2 (top_domains_str ds))"
    using c by (simp add: flush_sentence_def ds numeral_2_eq_2 del: domains_of.simps)
  have "summary_parts [l, h1, h2, off]
      = Inr [header_sentence (fmt_missing (user_id l)) (role l) p,
             ''Logged on at 08:00:00.'',
             web_summary_sentence ''08:01:00'' ''08:02:00'' 2 (top_domains_str ds),
             ''Logged off at 08:10:00.'']"
    using c by (simp add: summary_parts_def p flush_web_buffer_def emit_event_def w)
  then show "\<exists>p tops. summary_parts [l, h1, h2, off]
        = Inr [header_sentence (fmt_missing (user_id l)) (role l) p,
               ''Logged on at 08:00:00.'',
               web_summary_sentence ''08:01:00'' ''08:02:00'' 2 tops,
               ''Logged off at 08:10:00.'']"
    by blast
qed

theorem buffering_exit_order_witness:
  "list_all is_http
     [\<lparr>timestamp = 28860000000000, user_id = Some ''u123'', role = ''ITAdmin'', pc = ''PC-01'',
       activity_type = ''http'', url = Some ''http://example.com/news''\<rparr>,
      \<lparr>timestamp = 28920000000000, user_id = Some ''u123'', role = ''ITAdmin'', pc = ''PC-01'',
       activity_type = ''http'', url = Some ''http://test.org/''\<rparr>]
   \<and> flush_sentence
     [\<lparr>timestamp = 28860000000000, user_id = Some ''u123'', role = ''ITAdmin'', pc = ''PC-01'',
       activity_type = ''http'', url = Some ''http://example.com/news''\<rparr>,
      \<lparr>timestamp = 28920000000000, user_id = Some ''u123'', role = ''ITAdmin'', pc = ''PC-01'',
       activity_type = ''http'', url = Some ''http://test.org/''\<rparr>]
     = Inr ''Between 08:01:00 and 08:02:00, visited 2 websites, including example.com (1 times), test.org (1 times).''
   \<and> process_events
     [\<lparr>timestamp = 28860000000000, user_id = Some ''u123'', role = ''ITAdmin'', pc = ''PC-01'',
       activity_type = ''http'', url = Some ''http://example.com/news''\<rparr>,
      \<lparr>timestamp = 28920000000000, user_id = Some ''u123'', role = ''ITAdmin'', pc = ''PC-01'',
       activity_type = ''http'', url = Some ''http://test.org/''\<rparr>,
      \<lparr>timestamp = 29400000000000, user_id = Some ''u123'', role = ''ITAdmin'', pc = ''PC-01'',
       activity_type = ''logoff'', url = None\<rparr>]
     ([''Logged on at 08:00:00.''], [])
     = Inr ([''Logged on at 08:00:00.'',
             ''Between 08:01:00 and 08:02:00, visited 2 websites, including example.com (1 times), test.org (1 times).'',
             ''Logged off at 08:10:00.''], [])
   \<and> summary_parts
     [\<lparr>timestamp = 28800000000000, user_id = Some ''u123'', role = ''ITAdmin'', pc = ''PC-01'',
       activity_type = ''logon'', url = None\<rparr>,
      \<lparr>timestamp = 28860000000000, user_id = Some ''u123'', role = ''ITAdmin'', pc = ''PC-01'',
       activity_type = ''http'', url = Some ''http://example.com/news''\<rparr>,
      \<lparr>timestamp = 28920000000000, user_id = Some ''u123'', role = ''ITAdmin'', pc = ''PC-01'',
       activity_type = ''http'', url = Some ''http://test.org/''\<rparr>]
     = Inr [''User u123 (Role: ITAdmin) on PC-01:'',
            ''Logged on at 08:00:00.'',
            ''Between 08:01:00 and 08:02:00, visited 2 websites, including example.com (1 times), test.org (1 times).'']
   \<and> (\<exists>p tops. summary_parts
     [\<lparr>timestamp = 28800000000000, user_id = Some ''u123'', role = ''ITAdmin'', pc = ''PC-01'',
       activity_type = ''logon'', url = None\<rparr>,
      \<lparr>timestamp = 28860000000000, user_id = Some ''u123'', role = ''ITAdmin'', pc = ''PC-01'',
       activity_type = ''http'', url = Some ''http://example.com/news''\<rparr>,
      \<lparr>timestamp = 28920000000000, user_id = Some ''u123'', role = ''ITAdmin'', pc = ''PC-01'',
       activity_type = ''http'', url = Some ''http://test.org/''\<rparr>,
      \<lparr>timestamp = 29400000000000, user_id = Some ''u123'', role = ''ITAdmin'', pc = ''PC-01'',
       activity_type = ''logoff'', url = None\<rparr>]
     = Inr [header_sentence ''u123'' ''ITAdmin'' p,
            ''Logged on at 08:00:00.'',
            web_summary_sentence ''08:01:00'' ''08:02:00'' 2 tops,
            ''Logged off at 08:10:00.''])"
proof -
  let ?on = "\<lparr>timestamp = 28800000000000, user_id = Some ''u123'', role = ''ITAdmin'', pc = ''PC-01'',
       activity_type = ''logon'', url = None\<rparr>"
  let ?h1 = "\<lparr>timestamp = 28860000000000, user_id = Some ''u123'', role = ''ITAdmin'', pc = ''PC-01'',
       activity_type = ''http'', url = Some ''http://example.com/news''\<rparr>"
  let ?h2 = "\<lparr>timestamp = 28920000000000, user_id = Some ''u123'', role = ''ITAdmin'', pc = ''PC-01'',
       activity_type = ''http'', url = Some ''http://test.org/''\<rparr>"
  let ?off = "\<lparr>timestamp = 29400000000000, user_id = Some ''u123'', role = ''ITAdmin'', pc = ''PC-01'',
       activity_type = ''logoff'', url = None\<rparr>"
  let ?w = "''Between 08:01:00 and 08:02:00, visited 2 websites, including example.com (1 times), test.org (1 times).''"
  let ?hdr = "''User u123 (Role: ITAdmin) on PC-01:''"
  have t: "strftime_HMS 28800000000000 = ''08:00:00''" "strftime_HMS 28860000000000 = ''08:01:00''"
    "strftime_HMS 28920000000000 = ''08:02:00''" "strftime_HMS 29400000000000 = ''08:10:00''"
    by (simp_all add: strftime_HMS_def two_digits_def digit_char_def)
  have http: "list_all is_http [?h1, ?h2]"
    by (simp add: is_http_def)
  have ds: "domains_of [?h1, ?h2] = Inr [''example.com'', ''test.org'']"
    by (simp add: item_domain_def domain_of_eq)
  have w: "flush_sentence [?h1, ?h2] = Inr ?w"
    by (simp add: flush_sentence_def ds t web_summary_sentence_def top_domains_str_def
        most_common_def Counter_def str_nat.simps digit_char_def del: domains_of.simps)
  note inst = buffering_exit_order [where hs = "[?h1, ?h2]" and e = ?off and buf = "[]" and w = ?w
      and rest = "[]" and parts = "[''Logged on at 08:00:00.'']" and l = ?on and ?h1.0 = ?h1
      and ?h2.0 = ?h2 and off = ?off and ?u1.0 = "''http://example.com/news''"
      and ?u2.0 = "''http://test.org/''" and pre = "[?on]" and events = "[?on, ?h1, ?h2]"
      and narrative_parts = "[?hdr, ''Logged on at 08:00:00.'', ?w]"]
  have run: "process_events [?h1, ?h2, ?off] ([''Logged on at 08:00:00.''], [])
     = Inr ([''Logged on at 08:00:00.'', ?w, ''Logged off at 08:10:00.''], [])"
    using inst [THEN conjunct1] http w
    by (simp add: discrete_sentence_def t del: process_events.simps(2))
  have pc: "header_pc [?on, ?h1, ?h2] = Inr ''PC-01''"
    by (simp add: header_pc_def mode_def py_first_def)
  have segs: "map segment_sentences (segments [?on, ?h1, ?h2])
      = map Inr [[''Logged on at 08:00:00.''], [?w]]"
    using w by (simp add: is_http_def segment_sentences_def discrete_sentence_def t)
  have trailing: "summary_parts [?on, ?h1, ?h2] = Inr [?hdr, ''Logged on at 08:00:00.'', ?w]"
  proof (rule inst [THEN conjunct2, THEN conjunct1, THEN iffD2])
    show "\<exists>p chunks. header_pc [?on, ?h1, ?h2] = Inr p
        \<and> map segment_sentences (segments [?on, ?h1, ?h2]) = map Inr chunks
        \<and> [?hdr, ''Logged on at 08:00:00.'', ?w]
            = header_sentence (fmt_missing (user_id (hd [?on, ?h1, ?h2]))) (role (hd [?on, ?h1, ?h2])) p
              # concat chunks"
      using pc segs by (intro exI [of _ "''PC-01''"] exI [of _ "[[''Logged on at 08:00:00.''], [?w]]"])
        (simp add: header_sentence_def fmt_missing_def)
  qed
  have "\<exists>p tops. summary_parts [?on, ?h1, ?h2, ?off]
     = Inr [header_sentence (fmt_missing (user_id ?on)) (role ?on) p,
            ''Logged on at 08:00:00.'',
            web_summary_sentence ''08:01:00'' ''08:02:00'' 2 tops,
            ''Logged off at 08:10:00.'']"
    by (rule inst [THEN conjunct2, THEN conjunct2, THEN conjunct2, THEN mp]) (simp add: t)
  then have "\<exists>p tops. summary_parts [?on, ?h1, ?h2, ?off]
     = Inr [header_sentence ''u123'' ''ITAdmin'' p,
            ''Logged on at 08:00:00.'',
            web_summary_sentence ''08:01:00'' ''08:02:00'' 2 tops,
            ''Logged off at 08:10:00.'']"
    by (simp add: fmt_missing_def)
  with http w run trailing show ?thesis
    by (intro conjI)
qed

section \<open>The flush sentence\<close>

lemma strftime_HMS_shape:
  "\<exists>h m s. h < 24 \<and> m < 60 \<and> s < 60
          \<and> strftime_HMS t = two_digits h @ '':'' @ two_digits m @ '':'' @ two_digits s"
proof -
  let ?s = "nat ((t div 1000000000) mod 86400)"
  have "?s < 86400" by simp
  then have "?s div 3600 < 24" "?s div 60 mod 60 < 60" "?s mod 60 < 60"
    by simp_all
  then show ?thesis
    unfolding strftime_HMS_def Let_def by blast
qed

lemma flush_three_visits:
  assumes "strftime_HMS (timestamp e1) = ''09:00:00''"
    and "strftime_HMS (timestamp e2) = ''09:05:00''"
    and "strftime_HMS (timestamp e3) = ''09:10:00''"
    and "item_domain e1 = Inr d1" and "item_domain e2 = Inr d2" and "item_domain e3 = Inr d3"
    and "[d1, d2, d3] = [''example.com'', ''example.com'', ''test.org'']
         \<or> [d1, d2, d3] = [''example.com'', ''test.org'', ''example.com'']
         \<or> [d1, d2, d3] = [''test.org'', ''example.com'', ''example.com'']"
  shows "flush_web_buffer (parts, [e1, e2, e3])
         = Inr (parts @ [''Between 09:00:00 and 09:10:00, visited 3 websites, including example.com (2 times), test.org (1 times).''], [])"
proof -
  have ds: "domains_of [e1, e2, e3] = Inr [d1, d2, d3]"
    using assms by simp
  have tops: "top_domains_str [d1, d2, d3] = ''example.com (2 times), test.org (1 times)''"
  proof -
    have "top_domains_str [''example.com'', ''example.com'', ''test.org''] = ''example.com (2 times), test.org (1 times)''"
      by (simp add: top_domains_str_def most_common_def Counter_def str_nat.simps digit_char_def)
    moreover have "top_domains_str [''example.com'', ''test.org'', ''example.com''] = ''example.com (2 times), test.org (1 times)''"
      by (simp add: top_domains_str_def most_common_def Counter_def str_nat.simps digit_char_def)
    moreover have "top_domains_str [''test.org'', ''example.com'', ''example.com''] = ''example.com (2 times), test.org (1 times)''"
      by (simp add: top_domains_str_def most_common_def Counter_def str_nat.simps digit_char_def)
    ultimately show ?thesis
      using assms(7) by metis
  qed
  have "flush_sentence [e1, e2, e3]
      = Inr (web_summary_sentence ''09:00:00'' ''09:10:00'' 3 (top_domains_str [d1, d2, d3]))"
    using assms(1,3) by (simp add: flush_sentence_def ds numeral_3_eq_3 del: domains_of.simps)
  moreover have "str_nat 3 = ''3''"
    by (simp add: str_nat.simps digit_char_def)
  ultimately have "flush_sentence [e1, e2, e3]
      = Inr ''Between 09:00:00 and 09:10:00, visited 3 websites, including example.com (2 times), test.org (1 times).''"
    by (simp add: tops web_summary_sentence_def)
  then show ?thesis
    by (simp add: flush_web_buffer_def)
qed

text \<open>
  C7. A buffer of three http events at 09:00:00, 09:05:00 and 09:10:00 whose domains are
  example.com twice and test.org once, in any order, is flushed to the sentence of the
  specification. In general the sentence of a buffer has the first and the last time of
  the buffer, the length of the buffer and the listed domains, every count followed by
  \<open>times\<close>; a time is printed as HH:MM:SS.
\<close>

theorem flush_sentence_example:
  "(strftime_HMS (timestamp e1) = ''09:00:00'' \<and> strftime_HMS (timestamp e2) = ''09:05:00''
      \<and> strftime_HMS (timestamp e3) = ''09:10:00''
      \<and> item_domain e1 = Inr d1 \<and> item_domain e2 = Inr d2 \<and> item_domain e3 = Inr d3
      \<and> ([d1, d2, d3] = [''example.com'', ''example.com'', ''test.org'']
           \<or> [d1, d2, d3] = [''example.com'', ''test.org'', ''example.com'']
           \<or> [d1, d2, d3] = [''test.org'', ''example.com'', ''example.com'']) \<longrightarrow>
      flush_web_buffer (parts, [e1, e2, e3])
        = Inr (parts @ [''Between 09:00:00 and 09:10:00, visited 3 websites, including example.com (2 times), test.org (1 times).''], []))
   \<and> (domains_of buf = Inr ds \<longrightarrow>
        flush_sentence buf =
          Inr (''Between '' @ strftime_HMS (timestamp (hd buf)) @ '' and ''
                 @ strftime_HMS (timestamp (last buf)) @ '', visited '' @ str_nat (length buf)
                 @ '' websites, including '' @ top_domains_str ds @ ''.''))
   \<and> top_domains_str ds =
        join '', '' (map (\<lambda>(domain, count). domain @ '' ('' @ str_nat count @ '' times)'')
                       (most_common 3 (Counter ds)))
   \<and> (\<exists>h m s. h < 24 \<and> m < 60 \<and> s < 60
          \<and> strftime_HMS t = two_digits h @ '':'' @ two_digits m @ '':'' @ two_digits s)"
proof (intro conjI impI)
  assume "strftime_HMS (timestamp e1) = ''09:00:00'' \<and> strftime_HMS (timestamp e2) = ''09:05:00''
      \<and> strftime_HMS (timestamp e3) = ''09:10:00''
      \<and> item_domain e1 = Inr d1 \<and> item_domain e2 = Inr d2 \<and> item_domain e3 = Inr d3
      \<and> ([d1, d2, d3] = [''example.com'', ''example.com'', ''test.org'']
           \<or> [d1, d2, d3] = [''example.com'', ''test.org'', ''example.com'']
           \<or> [d1, d2, d3] = [''test.org'', ''example.com'', ''example.com''])"
  then show "flush_web_buffer (parts, [e1, e2, e3])
        = Inr (parts @ [''Between 09:00:00 and 09:10:00, visited 3 websites, including example.com (2 times), test.org (1 times).''], [])"
    using flush_three_visits [of e1 e2 e3 d1 d2 d3 parts] by blast
next
  assume "domains_of buf = Inr ds"
  then show "flush_sentence buf =
          Inr (''Between '' @ strftime_HMS (timestamp (hd buf)) @ '' and ''
                 @ strftime_HMS (timestamp (last buf)) @ '', visited '' @ str_nat (length buf)
                 @ '' websites, including '' @ top_domains_str ds @ ''.'')"
    by (simp add: flush_sentence_def web_summary_sentence_def)
next
  show "top_domains_str ds =
        join '', '' (map (\<lambda>(domain, count). domain @ '' ('' @ str_nat count @ '' times)'')
                       (most_common 3 (Counter ds)))"
    by (simp add: top_domains_str_def)
next
  show "\<exists>h m s. h < 24 \<and> m < 60 \<and> s < 60
          \<and> strftime_HMS t = two_digits h @ '':'' @ two_digits m @ '':'' @ two_digits s"
    by (rule strftime_HMS_shape)
qed

theorem flush_sentence_example_witness:
  "flush_web_buffer
     ([''User u123 (Role: ITAdmin) on PC-01:''],
      [\<lparr>timestamp = 32400000000000, user_id = Some ''u123'', role = ''ITAdmin'', pc = ''PC-01'',
        activity_type = ''http'', url = Some ''http://example.com/news''\<rparr>,
       \<lparr>timestamp = 32700000000000, user_id = Some ''u123'', role = ''ITAdmin'', pc = ''PC-01'',
        activity_type = ''http'', url = Some ''https://test.org''\<rparr>,
       \<lparr>timestamp = 33000000000000, user_id = Some ''u123'', role = ''ITAdmin'', pc = ''PC-01'',
        activity_type = ''http'', url = Some ''http://example.com/mail/inbox''\<rparr>])
   = Inr ([''User u123 (Role: ITAdmin) on PC-01:'',
           ''Between 09:00:00 and 09:10:00, visited 3 websites, including example.com (2 times), test.org (1 times).''],
          [])"
proof -
  have t: "strftime_HMS 32400000000000 = ''09:00:00''" "strftime_HMS 32700000000000 = ''09:05:00''"
    "strftime_HMS 33000000000000 = ''09:10:00''"
    by (simp_all add: strftime_HMS_def two_digits_def digit_char_def)
  have d: "domain_of ''http://example.com/news'' = Inr ''example.com''"
    "domain_of ''https://test.org'' = Inr ''test.org''"
    "domain_of ''http://example.com/mail/inbox'' = Inr ''example.com''"
    by (simp_all add: domain_of_eq)
  note inst = flush_sentence_example [of 
      "\<lparr>timestamp = 32400000000000, user_id = Some ''u123'', role = ''ITAdmin'', pc = ''PC-01'',
        activity_type = ''http'', url = Some ''http://example.com/news''\<rparr>"
      "\<lparr>timestamp = 32700000000000, user_id = Some ''u123'', role = ''ITAdmin'', pc = ''PC-01'',
        activity_type = ''http'', url = Some ''https://test.org''\<rparr>"
      "\<lparr>timestamp = 33000000000000, user_id = Some ''u123'', role = ''ITAdmin'', pc = ''PC-01'',
        activity_type = ''http'', url = Some ''http://example.com/mail/inbox''\<rparr>"
      "''example.com''" "''test.org''" "''example.com''" "[''User u123 (Role: ITAdmin) on PC-01:'']"]
  show ?thesis
    using inst [THEN conjunct1] by (simp add: t d item_domain_def)
qed

section \<open>The domains of a web summary\<close>

















section \<open>Buffer accounting\<close>

lemma http_runs_all_http: "list_all is_http buf \<Longrightarrow> buf \<noteq> [] \<Longrightarrow> http_runs buf = [buf]"
  by (cases buf) (auto simp: list_all_iff takeWhile_eq_all_conv[THEN iffD2] dropWhile_eq_Nil_conv[THEN iffD2])

lemma http_runs_run_then_other:
  "list_all is_http buf \<Longrightarrow> buf \<noteq> [] \<Longrightarrow> \<not> is_http e \<Longrightarrow> http_runs (buf @ e # es) = buf # http_runs es"
  by (cases buf) (auto simp: list_all_iff takeWhile_append2 dropWhile_append2)

lemma filter_split_run: "filter P xs = takeWhile P xs @ filter P (dropWhile P xs)"
  by (induction xs) auto

lemma concat_http_runs: "concat (http_runs es) = filter is_http es"
proof (induction es rule: http_runs.induct)
  case 1
  show ?case by simp
next
  case (2 e es)
  have "filter is_http es = takeWhile is_http es @ filter is_http (dropWhile is_http es)"
    by (rule filter_split_run)
  with 2 show ?case by auto
qed

lemma http_runs_no_empty: "[] \<notin> set (http_runs es)"
  by (induction es rule: http_runs.induct) auto

lemma sum_length_http_runs: "sum_list (map length (http_runs es)) = length (filter is_http es)"
  using concat_http_runs [of es] by (metis length_concat)

lemma is_web_summary_sentence [simp]: "is_web_summary (web_summary_sentence s e n t)"
  by (simp add: is_web_summary_def web_summary_sentence_def)

lemma flush_sentence_form:
  "flush_sentence buf = Inr s \<Longrightarrow> \<exists>start end tops. s = web_summary_sentence start end (length buf) tops"
  by (auto simp: flush_sentence_def Let_def split: sum.splits)

lemma flush_web_buffer_cases:
  assumes "flush_web_buffer (ps, buf) = Inr (ps', buf')"
  shows "buf' = [] \<and> (if buf = [] then ps' = ps else \<exists>s. flush_sentence buf = Inr s \<and> ps' = ps @ [s])"
  using assms by (auto simp: flush_web_buffer_def split: if_splits sum.splits)

lemma emit_event_other:
  assumes "\<not> is_http e"
  shows "\<exists>ps'. emit_event e (ps, buf) = (ps', buf) \<and> filter is_web_summary ps' = filter is_web_summary ps"
  using assms by (auto simp: emit_event_def Let_def is_http_def is_web_summary_def)


lemma flush_runs:
  assumes "list_all is_http buf"
    and "process_events es (ps, buf) = Inr (ps1, buf1)"
    and "flush_web_buffer (ps1, buf1) = Inr (ps2, buf2)"
  shows "\<exists>new. filter is_web_summary ps2 = filter is_web_summary ps @ new
               \<and> map flush_sentence (http_runs (buf @ es)) = map Inr new"
  using assms
proof (induction es arbitrary: ps buf)
  case Nil
  then have f: "flush_web_buffer (ps, buf) = Inr (ps2, buf2)" by simp
  show ?case
  proof (cases "buf = []")
    case True
    then show ?thesis using flush_web_buffer_cases [OF f] by simp
  next
    case False
    then obtain s where "flush_sentence buf = Inr s" "ps2 = ps @ [s]"
      using flush_web_buffer_cases [OF f] by auto
    moreover from this obtain a b c where "s = web_summary_sentence a b (length buf) c"
      using flush_sentence_form by blast
    ultimately show ?thesis
      using False Nil.prems(1) by (simp add: http_runs_all_http)
  qed
next
  case (Cons e es)
  show ?case
  proof (cases "is_http e")
    case True
    then have "process_events es (ps, buf @ [e]) = Inr (ps1, buf1)"
      using Cons.prems(2) by (simp add: is_http_def emit_event_def)
    moreover have "list_all is_http (buf @ [e])"
      using True Cons.prems(1) by simp
    ultimately show ?thesis
      using Cons.IH [of "buf @ [e]" ps] Cons.prems(3) by simp
  next
    case False
    then obtain psf buff where
      f: "flush_web_buffer (ps, buf) = Inr (psf, buff)"
      and r: "process_events es (emit_event e (psf, buff)) = Inr (ps1, buf1)"
      using Cons.prems(2) by (auto simp: is_http_def split: sum.splits)
    from flush_web_buffer_cases [OF f] have b: "buff = []" by simp
    from emit_event_other [OF False, of psf "[]"] obtain pse where
      e: "emit_event e (psf, []) = (pse, [])"
      and w: "filter is_web_summary pse = filter is_web_summary psf"
      by blast
    from Cons.IH [of "[]" pse] r b e Cons.prems(3) obtain new where
      n: "filter is_web_summary ps2 = filter is_web_summary pse @ new"
      "map flush_sentence (http_runs es) = map Inr new"
      by auto
    show ?thesis
    proof (cases "buf = []")
      case True
      then have "psf = ps" using flush_web_buffer_cases [OF f] by simp
      then show ?thesis using True n w False by simp
    next
      case nonempty: False
      then obtain s where s: "flush_sentence buf = Inr s" "psf = ps @ [s]"
        using flush_web_buffer_cases [OF f] by auto
      moreover from this obtain a b c where "s = web_summary_sentence a b (length buf) c"
        using flush_sentence_form by blast
      ultimately have "filter is_web_summary ps2 = filter is_web_summary ps @ (s # new)"
        using n w by simp
      moreover have "map flush_sentence (http_runs (buf @ e # es)) = map Inr (s # new)"
        using n(2) s(1) nonempty False Cons.prems(1) by (simp add: http_runs_run_then_other)
      ultimately show ?thesis by blast
    qed
  qed
qed

lemma header_not_web_summary: "\<not> is_web_summary (header_sentence u r p)"
  by (simp add: is_web_summary_def header_sentence_def)

lemma summary_parts_runs:
  assumes "summary_parts events = Inr parts"
  shows "map flush_sentence (http_runs events) = map Inr (filter is_web_summary parts)"
proof -
  from assms obtain p ps1 buf1 buf2 where
    run: "process_events events
          ([header_sentence (fmt_missing (user_id (hd events))) (role (hd events)) p], []) = Inr (ps1, buf1)"
    and fl: "flush_web_buffer (ps1, buf1) = Inr (parts, buf2)"
    by (auto simp: summary_parts_def Let_def split: sum.splits)
  from flush_runs [OF _ run fl] show ?thesis
    by (auto simp: header_not_web_summary)
qed

lemma map_Inr_list_all2:
  "map f xs = map Inr ys \<Longrightarrow> list_all2 (\<lambda>x y. f x = Inr y) xs ys"
  by (induction xs arbitrary: ys) auto

text \<open>
  C10. An http event is appended to the buffer, once, and nothing else is; a flush
  leaves the buffer empty. So, when the Summarizer returns, the web activity runs of the
  bucket hold every http event exactly once, in order; each run was flushed to one
  web-summary sentence whose total is the length of the run; these are all the web-summary
  sentences of the narrative, in order; and the totals add up to the number of http events
  of the bucket.
\<close>

theorem buffer_accounting:
  assumes "summary_parts events = Inr parts"
  shows "(is_http e \<longrightarrow> emit_event e (ps, buf) = (ps, buf @ [e]))
         \<and> (\<not> is_http e \<longrightarrow> snd (emit_event e (ps, buf)) = buf)
         \<and> (flush_web_buffer (ps, buf) = Inr (ps', buf') \<longrightarrow> buf' = [])
         \<and> concat (http_runs events) = filter is_http events
         \<and> [] \<notin> set (http_runs events)
         \<and> map flush_sentence (http_runs events) = map Inr (filter is_web_summary parts)
         \<and> list_all2 (\<lambda>run s. \<exists>start end tops. s = web_summary_sentence start end (length run) tops)
               (http_runs events) (filter is_web_summary parts)
         \<and> sum_list (map length (http_runs events)) = length (filter is_http events)"
proof -
  have m: "map flush_sentence (http_runs events) = map Inr (filter is_web_summary parts)"
    using assms by (rule summary_parts_runs)
  have "list_all2 (\<lambda>run s. flush_sentence run = Inr s) (http_runs events) (filter is_web_summary parts)"
    using m by (rule map_Inr_list_all2)
  then have "list_all2 (\<lambda>run s. \<exists>start end tops. s = web_summary_sentence start end (length run) tops)
               (http_runs events) (filter is_web_summary parts)"
    by (rule list_all2_mono) (rule flush_sentence_form)
  moreover have "is_http e \<longrightarrow> emit_event e (ps, buf) = (ps, buf @ [e])"
    by (simp add: is_http_def emit_event_def)
  moreover have "\<not> is_http e \<longrightarrow> snd (emit_event e (ps, buf)) = buf"
    using emit_event_other [of e ps buf] by auto
  moreover have "flush_web_buffer (ps, buf) = Inr (ps', buf') \<longrightarrow> buf' = []"
    using flush_web_buffer_cases [of ps buf ps' buf'] by simp
  ultimately show ?thesis
    using m by (simp add: concat_http_runs http_runs_no_empty sum_length_http_runs)
qed

theorem buffer_accounting_witness:
  "summary_parts
     [\<lparr>timestamp = 28860000000000, user_id = Some ''u123'', role = ''ITAdmin'', pc = ''PC-01'',
       activity_type = ''http'', url = Some ''http://a.com/x''\<rparr>,
      \<lparr>timestamp = 28920000000000, user_id = Some ''u123'', role = ''ITAdmin'', pc = ''PC-01'',
       activity_type = ''logon'', url = None\<rparr>,
      \<lparr>timestamp = 28980000000000, user_id = Some ''u123'', role = ''ITAdmin'', pc = ''PC-01'',
       activity_type = ''http'', url = Some ''http://b.org''\<rparr>,
      \<lparr>timestamp = 29040000000000, user_id = Some ''u123'', role = ''ITAdmin'', pc = ''PC-01'',
       activity_type = ''http'', url = Some ''http://a.com/y''\<rparr>,
      \<lparr>timestamp = 29100000000000, user_id = Some ''u123'', role = ''ITAdmin'', pc = ''PC-01'',
       activity_type = ''logoff'', url = None\<rparr>]
   = Inr [''User u123 (Role: ITAdmin) on PC-01:'',
          ''Between 08:01:00 and 08:01:00, visited 1 websites, including a.com (1 times).'',
          ''Logged on at 08:02:00.'',
          ''Between 08:03:00 and 08:04:00, visited 2 websites, including b.org (1 times), a.com (1 times).'',
          ''Logged off at 08:05:00.'']
   \<and> map length (http_runs
     [\<lparr>timestamp = 28860000000000, user_id = Some ''u123'', role = ''ITAdmin'', pc = ''PC-01'',
       activity_type = ''http'', url = Some ''http://a.com/x''\<rparr>,
      \<lparr>timestamp = 28920000000000, user_id = Some ''u123'', role = ''ITAdmin'', pc = ''PC-01'',
       activity_type = ''logon'', url = None\<rparr>,
      \<lparr>timestamp = 28980000000000, user_id = Some ''u123'', role = ''ITAdmin'', pc = ''PC-01'',
       activity_type = ''http'', url = Some ''http://b.org''\<rparr>,
      \<lparr>timestamp = 29040000000000, user_id = Some ''u123'', role = ''ITAdmin'', pc = ''PC-01'',
       activity_type = ''http'', url = Some ''http://a.com/y''\<rparr>,
      \<lparr>timestamp = 29100000000000, user_id = Some ''u123'', role = ''ITAdmin'', pc = ''PC-01'',
       activity_type = ''logoff'', url = None\<rparr>]) = [1, 2]
   \<and> sum_list (map length (http_runs
     [\<lparr>timestamp = 28860000000000, user_id = Some ''u123'', role = ''ITAdmin'', pc = ''PC-01'',
       activity_type = ''http'', url = Some ''http://a.com/x''\<rparr>,
      \<lparr>timestamp = 28920000000000, user_id = Some ''u123'', role = ''ITAdmin'', pc = ''PC-01'',
       activity_type = ''logon'', url = None\<rparr>,
      \<lparr>timestamp = 28980000000000, user_id = Some ''u123'', role = ''ITAdmin'', pc = ''PC-01'',
       activity_type = ''http'', url = Some ''http://b.org''\<rparr>,
      \<lparr>timestamp = 29040000000000, user_id = Some ''u123'', role = ''ITAdmin'', pc = ''PC-01'',
       activity_type = ''http'', url = Some ''http://a.com/y''\<rparr>,
      \<lparr>timestamp = 29100000000000, user_id = Some ''u123'', role = ''ITAdmin'', pc = ''PC-01'',
       activity_type = ''logoff'', url = None\<rparr>]))
     = length (filter is_http
     [\<lparr>timestamp = 28860000000000, user_id = Some ''u123'', role = ''ITAdmin'', pc = ''PC-01'',
       activity_type = ''http'', url = Some ''http://a.com/x''\<rparr>,
      \<lparr>timestamp = 28920000000000, user_id = Some ''u123'', role = ''ITAdmin'', pc = ''PC-01'',
       activity_type = ''logon'', url = None\<rparr>,
      \<lparr>timestamp = 28980000000000, user_id = Some ''u123'', role = ''ITAdmin'', pc = ''PC-01'',
       activity_type = ''http'', url = Some ''http://b.org''\<rparr>,
      \<lparr>timestamp = 29040000000000, user_id = Some ''u123'', role = ''ITAdmin'', pc = ''PC-01'',
       activity_type = ''http'', url = Some ''http://a.com/y''\<rparr>,
      \<lparr>timestamp = 29100000000000, user_id = Some ''u123'', role = ''ITAdmin'', pc = ''PC-01'',
       activity_type = ''logoff'', url = None\<rparr>])"
proof -
  let ?bucket = "[\<lparr>timestamp = 28860000000000, user_id = Some ''u123'', role = ''ITAdmin'', pc = ''PC-01'',
       activity_type = ''http'', url = Some ''http://a.com/x''\<rparr>,
      \<lparr>timestamp = 28920000000000, user_id = Some ''u123'', role = ''ITAdmin'', pc = ''PC-01'',
       activity_type = ''logon'', url = None\<rparr>,
      \<lparr>timestamp = 28980000000000, user_id = Some ''u123'', role = ''ITAdmin'', pc = ''PC-01'',
       activity_type = ''http'', url = Some ''http://b.org''\<rparr>,
      \<lparr>timestamp = 29040000000000, user_id = Some ''u123'', role = ''ITAdmin'', pc = ''PC-01'',
       activity_type = ''http'', url = Some ''http://a.com/y''\<rparr>,
      \<lparr>timestamp = 29100000000000, user_id = Some ''u123'', role = ''ITAdmin'', pc = ''PC-01'',
       activity_type = ''logoff'', url = None\<rparr>]"
  have t: "strftime_HMS 28860000000000 = ''08:01:00''" "strftime_HMS 28920000000000 = ''08:02:00''"
    "strftime_HMS 28980000000000 = ''08:03:00''" "strftime_HMS 29040000000000 = ''08:04:00''"
    "strftime_HMS 29100000000000 = ''08:05:00''"
    by (simp_all add: strftime_HMS_def two_digits_def digit_char_def)
  have pc: "header_pc ?bucket = Inr ''PC-01''"
    by (simp add: header_pc_def mode_def py_first_def)
  have sp: "summary_parts ?bucket
   = Inr [''User u123 (Role: ITAdmin) on PC-01:'',
          ''Between 08:01:00 and 08:01:00, visited 1 websites, including a.com (1 times).'',
          ''Logged on at 08:02:00.'',
          ''Between 08:03:00 and 08:04:00, visited 2 websites, including b.org (1 times), a.com (1 times).'',
          ''Logged off at 08:05:00.'']"
    by (simp add: summary_parts_def pc fmt_missing_def header_sentence_def flush_web_buffer_def
        emit_event_def flush_sentence_def t item_domain_def domain_of_eq web_summary_sentence_def
        top_domains_str_def most_common_def Counter_def str_nat.simps digit_char_def)
  have runs: "map length (http_runs ?bucket) = [1, 2]"
    by (simp add: is_http_def)
  from buffer_accounting [OF sp]
  have total: "sum_list (map length (http_runs ?bucket)) = length (filter is_http ?bucket)"
    by blast
  from sp runs total show ?thesis
    by blast
qed

section \<open>Role enrichment\<close>

lemma merge_roles_length: "length (merge_roles rm uid) = join_copies rm uid"
  by (cases "filter (\<lambda>(u, x). Some u = uid) rm") (simp_all add: merge_roles_def join_copies_def)

lemma merge_roles_absent:
  assumes "uid \<notin> Some ` fst ` set rm"
  shows "merge_roles rm uid = [None]"
proof -
  have "filter (\<lambda>(u, x). Some u = uid) rm = []"
    using assms by (auto simp: filter_empty_conv image_iff)
  then show ?thesis by (simp add: merge_roles_def)
qed

lemma merge_roles_present:
  assumes "x \<in> set (merge_roles rm (Some u))" and "u \<in> fst ` set rm"
  shows "(u, fillna_role x) \<in> set rm"
proof -
  from assms(2) have ne: "filter (\<lambda>(u', r). Some u' = Some u) rm \<noteq> []"
    by (auto simp: filter_empty_conv)
  then have "merge_roles rm (Some u) = map (\<lambda>(u', r). Some r) (filter (\<lambda>(u', r). Some u' = Some u) rm)"
    by (cases "filter (\<lambda>(u', r). Some u' = Some u) rm") (simp_all add: merge_roles_def)
  with assms(1) show ?thesis
    by (auto simp: fillna_role_def)
qed

lemma enrich_Inr:
  assumes "enrich P rm date_of user_of df = Inr rows"
  shows "rows = map (\<lambda>(row, uid, r). (row, uid, r, the (P (date_of row))))
           (concat (map (\<lambda>row. map (\<lambda>r. (row, extract_user_id (user_of row), fillna_role r))
                                   (merge_roles rm (extract_user_id (user_of row)))) df))"
    and "list_all (\<lambda>row. P (date_of row) \<noteq> None) df"
    and "\<not> (df \<noteq> [] \<and> rm \<noteq> [] \<and> list_all (\<lambda>row. extract_user_id (user_of row) = None) df)"
proof -
  let ?merged = "concat (map (\<lambda>row. map (\<lambda>r. (row, extract_user_id (user_of row), fillna_role r))
                                   (merge_roles rm (extract_user_id (user_of row)))) df)"
  from assms have c: "\<not> (df \<noteq> [] \<and> rm \<noteq> [] \<and> list_all (\<lambda>row. extract_user_id (user_of row) = None) df)"
    by (auto simp: enrich_def split: if_splits)
  with assms have ok: "list_all (\<lambda>(row, uid, r). P (date_of row) \<noteq> None) ?merged"
    and r: "rows = map (\<lambda>(row, uid, r). (row, uid, r, the (P (date_of row)))) ?merged"
    by (auto simp: enrich_def Let_def split: if_splits)
  show "rows = map (\<lambda>(row, uid, r). (row, uid, r, the (P (date_of row)))) ?merged" by fact
  show "\<not> (df \<noteq> [] \<and> rm \<noteq> [] \<and> list_all (\<lambda>row. extract_user_id (user_of row) = None) df)" by fact
  have "\<And>row. row \<in> set df \<Longrightarrow> P (date_of row) \<noteq> None"
  proof -
    fix row assume m: "row \<in> set df"
    have "merge_roles rm (extract_user_id (user_of row)) \<noteq> []"
      using merge_roles_length [of rm "extract_user_id (user_of row)"]
      by (auto simp: join_copies_def)
    then obtain x where "x \<in> set (merge_roles rm (extract_user_id (user_of row)))"
      by (cases "merge_roles rm (extract_user_id (user_of row))") auto
    then have "(row, extract_user_id (user_of row), fillna_role x) \<in> set ?merged"
      using m by auto
    with ok show "P (date_of row) \<noteq> None"
      unfolding list_all_iff by blast
  qed
  then show "list_all (\<lambda>row. P (date_of row) \<noteq> None) df"
    by (simp add: list_all_iff)
qed

lemma list_all2_replicate_map:
  "(\<And>y. y \<in> set ys \<Longrightarrow> R x (f y)) \<Longrightarrow> list_all2 R (replicate (length ys) x) (map f ys)"
  by (induction ys) auto

lemma list_all2_concat_map:
  "(\<And>x. x \<in> set xs \<Longrightarrow> list_all2 R (A x) (B x))
   \<Longrightarrow> list_all2 R (concat (map A xs)) (concat (map B xs))"
  by (induction xs) (auto intro: list_all2_appendI)

lemma enrich_rows:
  assumes "enrich P rm date_of user_of df = Inr rows"
  shows "list_all2
           (\<lambda>row (row', uid, r, t).
              row' = row \<and> uid = extract_user_id (user_of row) \<and> P (date_of row) = Some t
              \<and> (uid \<notin> Some ` fst ` set rm \<longrightarrow> r = ''Unknown'')
              \<and> (\<forall>u. uid = Some u \<and> u \<in> fst ` set rm \<longrightarrow> (u, r) \<in> set rm))
           (concat (map (\<lambda>row. replicate (join_copies rm (extract_user_id (user_of row))) row) df))
           rows"
proof -
  let ?R = "\<lambda>row (row', uid, r, t).
              row' = row \<and> uid = extract_user_id (user_of row) \<and> P (date_of row) = Some t
              \<and> (uid \<notin> Some ` fst ` set rm \<longrightarrow> r = ''Unknown'')
              \<and> (\<forall>u. uid = Some u \<and> u \<in> fst ` set rm \<longrightarrow> (u, r) \<in> set rm)"
  let ?g = "\<lambda>row r. (row, extract_user_id (user_of row), fillna_role r, the (P (date_of row)))"
  have rows: "rows = concat (map (\<lambda>row. map (?g row) (merge_roles rm (extract_user_id (user_of row)))) df)"
    unfolding enrich_Inr(1) [OF assms] by (simp add: map_concat comp_def)
  have "list_all2 ?R
          (concat (map (\<lambda>row. replicate (length (merge_roles rm (extract_user_id (user_of row)))) row) df))
          (concat (map (\<lambda>row. map (?g row) (merge_roles rm (extract_user_id (user_of row)))) df))"
  proof (rule list_all2_concat_map, rule list_all2_replicate_map)
    fix row x
    assume m: "row \<in> set df" and x: "x \<in> set (merge_roles rm (extract_user_id (user_of row)))"
    have d: "P (date_of row) \<noteq> None"
      using enrich_Inr(2) [OF assms] m by (simp add: list_all_iff)
    have a: "extract_user_id (user_of row) \<notin> Some ` fst ` set rm \<Longrightarrow> fillna_role x = ''Unknown''"
      using x merge_roles_absent [of "extract_user_id (user_of row)" rm] by (simp add: fillna_role_def)
    have b: "\<And>u. extract_user_id (user_of row) = Some u \<Longrightarrow> u \<in> fst ` set rm
               \<Longrightarrow> (u, fillna_role x) \<in> set rm"
      using x merge_roles_present by simp
    show "?R row (?g row x)"
      using d a b by auto
  qed
  then show ?thesis
    by (simp add: rows merge_roles_length)
qed

lemma logon_events_rows:
  assumes "logon_events to_datetime rm df = Inr evs"
  shows "list_all2
           (\<lambda>(d, u, p, a) e.
              to_datetime d = Some (timestamp e) \<and> user_id e = extract_user_id u \<and> pc e = p
              \<and> activity_type e = (if a = ''Logon'' then ''logon'' else ''logoff'') \<and> url e = None
              \<and> (user_id e \<notin> Some ` fst ` set rm \<longrightarrow> role e = ''Unknown'')
              \<and> (\<forall>v. user_id e = Some v \<and> v \<in> fst ` set rm \<longrightarrow> (v, role e) \<in> set rm))
           (concat (map (\<lambda>(d, u, p, a).
                      replicate (join_copies rm (extract_user_id u)) (d, u, p, a)) df))
           evs"
proof -
  from assms obtain rows where
    rows: "enrich to_datetime rm (\<lambda>(d, u, p, a). d) (\<lambda>(d, u, p, a). u) df = Inr rows"
    and evs: "evs = map (\<lambda>((d, u, p, a), uid, r, t).
                      \<lparr>timestamp = t, user_id = uid, role = r, pc = p,
                       activity_type = (if a = ''Logon'' then ''logon'' else ''logoff''),
                       url = None\<rparr>) rows"
    by (auto simp: logon_events_def split: sum.splits)
  have "list_all2 (\<lambda>row y. (\<lambda>(d, u, p, a) e.
              to_datetime d = Some (timestamp e) \<and> user_id e = extract_user_id u \<and> pc e = p
              \<and> activity_type e = (if a = ''Logon'' then ''logon'' else ''logoff'') \<and> url e = None
              \<and> (user_id e \<notin> Some ` fst ` set rm \<longrightarrow> role e = ''Unknown'')
              \<and> (\<forall>v. user_id e = Some v \<and> v \<in> fst ` set rm \<longrightarrow> (v, role e) \<in> set rm)) row ((\<lambda>((d, u, p, a), uid, r, t).
                      \<lparr>timestamp = t, user_id = uid, role = r, pc = p,
                       activity_type = (if a = ''Logon'' then ''logon'' else ''logoff''),
                       url = None\<rparr>) y))
          (concat (map (\<lambda>row. replicate (join_copies rm (extract_user_id ((\<lambda>(d, u, p, a). u) row))) row) df))
          rows"
    using enrich_rows [OF rows] by (rule list_all2_mono) (auto simp: image_iff Bex_def)
  then show ?thesis
    unfolding evs by (simp add: list_all2_map2 case_prod_unfold)
qed

lemma device_events_rows:
  assumes "device_events to_datetime rm df = Inr evs"
  shows "list_all2
           (\<lambda>(d, u, p, a) e.
              to_datetime d = Some (timestamp e) \<and> user_id e = extract_user_id u \<and> pc e = p
              \<and> activity_type e = (if a = ''Connect'' then ''device_connect'' else ''device_disconnect'')
              \<and> url e = None
              \<and> (user_id e \<notin> Some ` fst ` set rm \<longrightarrow> role e = ''Unknown'')
              \<and> (\<forall>v. user_id e = Some v \<and> v \<in> fst ` set rm \<longrightarrow> (v, role e) \<in> set rm))
           (concat (map (\<lambda>(d, u, p, a).
                      replicate (join_copies rm (extract_user_id u)) (d, u, p, a)) df))
           evs"
proof -
  from assms obtain rows where
    rows: "enrich to_datetime rm (\<lambda>(d, u, p, a). d) (\<lambda>(d, u, p, a). u) df = Inr rows"
    and evs: "evs = map (\<lambda>((d, u, p, a), uid, r, t).
                      \<lparr>timestamp = t, user_id = uid, role = r, pc = p,
                       activity_type = (if a = ''Connect'' then ''device_connect'' else ''device_disconnect''),
                       url = None\<rparr>) rows"
    by (auto simp: device_events_def split: sum.splits)
  have "list_all2 (\<lambda>row y. (\<lambda>(d, u, p, a) e.
              to_datetime d = Some (timestamp e) \<and> user_id e = extract_user_id u \<and> pc e = p
              \<and> activity_type e = (if a = ''Connect'' then ''device_connect'' else ''device_disconnect'')
              \<and> url e = None
              \<and> (user_id e \<notin> Some ` fst ` set rm \<longrightarrow> role e = ''Unknown'')
              \<and> (\<forall>v. user_id e = Some v \<and> v \<in> fst ` set rm \<longrightarrow> (v, role e) \<in> set rm)) row ((\<lambda>((d, u, p, a), uid, r, t).
                      \<lparr>timestamp = t, user_id = uid, role = r, pc = p,
                       activity_type = (if a = ''Connect'' then ''device_connect'' else ''device_disconnect''),
                       url = None\<rparr>) y))
          (concat (map (\<lambda>row. replicate (join_copies rm (extract_user_id ((\<lambda>(d, u, p, a). u) row))) row) df))
          rows"
    using enrich_rows [OF rows] by (rule list_all2_mono) (auto simp: image_iff Bex_def)
  then show ?thesis
    unfolding evs by (simp add: list_all2_map2 case_prod_unfold)
qed

lemma http_events_rows:
  assumes "http_events to_datetime rm df = Inr evs"
  shows "list_all2
           (\<lambda>(i, d, u, p, l, c) e.
              to_datetime d = Some (timestamp e) \<and> user_id e = extract_user_id u \<and> pc e = p
              \<and> activity_type e = ''http'' \<and> url e = Some l
              \<and> (user_id e \<notin> Some ` fst ` set rm \<longrightarrow> role e = ''Unknown'')
              \<and> (\<forall>v. user_id e = Some v \<and> v \<in> fst ` set rm \<longrightarrow> (v, role e) \<in> set rm))
           (concat (map (\<lambda>(i, d, u, p, l, c).
                      replicate (join_copies rm (extract_user_id u)) (i, d, u, p, l, c)) df))
           evs"
proof -
  from assms obtain rows where
    rows: "enrich to_datetime rm (\<lambda>(i, d, u, p, l, c). d) (\<lambda>(i, d, u, p, l, c). u) df = Inr rows"
    and evs: "evs = map (\<lambda>((i, d, u, p, l, c), uid, r, t).
                      \<lparr>timestamp = t, user_id = uid, role = r, pc = p,
                       activity_type = ''http'', url = Some l\<rparr>) rows"
    by (auto simp: http_events_def split: sum.splits)
  have "list_all2 (\<lambda>row y. (\<lambda>(i, d, u, p, l, c) e.
              to_datetime d = Some (timestamp e) \<and> user_id e = extract_user_id u \<and> pc e = p
              \<and> activity_type e = ''http'' \<and> url e = Some l
              \<and> (user_id e \<notin> Some ` fst ` set rm \<longrightarrow> role e = ''Unknown'')
              \<and> (\<forall>v. user_id e = Some v \<and> v \<in> fst ` set rm \<longrightarrow> (v, role e) \<in> set rm)) row ((\<lambda>((i, d, u, p, l, c), uid, r, t).
                      \<lparr>timestamp = t, user_id = uid, role = r, pc = p,
                       activity_type = ''http'', url = Some l\<rparr>) y))
          (concat (map (\<lambda>row. replicate (join_copies rm (extract_user_id ((\<lambda>(i, d, u, p, l, c). u) row))) row) df))
          rows"
    using enrich_rows [OF rows] by (rule list_all2_mono) (auto simp: image_iff Bex_def)
  then show ?thesis
    unfolding evs by (simp add: list_all2_map2 case_prod_unfold)
qed


lemma join_copies_single: "distinct (map fst rm) \<Longrightarrow> join_copies rm uid = 1"
proof -
  assume d: "distinct (map fst rm)"
  have "length (filter (\<lambda>(u, r). Some u = uid) rm) \<le> 1"
  proof (cases uid)
    case None
    then show ?thesis by (simp add: case_prod_unfold)
  next
    case (Some v)
    have "length (filter (\<lambda>x. x = v) (map fst rm)) \<le> 1"
      using d by (induction rm) (auto simp: filter_empty_conv image_iff Bex_def)
    moreover have "filter (\<lambda>x. x = v) (map fst rm) = map fst (filter (\<lambda>(u, r). Some u = uid) rm)"
      using Some by (induction rm) auto
    ultimately show ?thesis by simp
  qed
  then show ?thesis by (simp add: join_copies_def)
qed

lemma apply_groups_member:
  "apply_groups f df ks = Inr out \<Longrightarrow> (d, u, n) \<in> set out \<Longrightarrow>
     (u, d) \<in> set ks \<and> f (get_group df (u, d)) = Inr n"
  by (induction ks arbitrary: out) (auto split: sum.splits)

lemma apply_groups_keys:
  "apply_groups f df ks = Inr out \<Longrightarrow> map (\<lambda>(d, u, n). (u, d)) out = ks"
  by (induction ks arbitrary: out) (auto split: sum.splits)

lemma group_keys_event:
  "e \<in> set df \<Longrightarrow> user_id e = Some u \<Longrightarrow> (u, date_only (timestamp e)) \<in> set (group_keys df)"
  by (force simp: group_keys_def map_filter_def)

lemma group_keys_member:
  "(u, d) \<in> set (group_keys df) \<Longrightarrow> get_group df (u, d) \<noteq> []"
  by (auto simp: group_keys_def get_group_def map_filter_def filter_empty_conv)

lemma join_prefix: "parts \<noteq> [] \<Longrightarrow> prefix (hd parts) (join sep parts)"
  by (induction sep parts rule: join.induct) simp_all

lemma create_summary_header:
  assumes "create_summary_from_events bucket = Inr n" and "bucket \<noteq> []"
  shows "\<exists>p. prefix (header_sentence (fmt_missing (user_id (hd bucket))) (role (hd bucket)) p) n"
proof -
  from assms obtain parts where sp: "summary_parts bucket = Inr parts" and n: "n = join '' '' parts"
    by (auto simp: create_summary_from_events_def split: sum.splits)
  from summary_parts_hd [OF sp] obtain p where
    h: "hd parts = header_sentence (fmt_missing (user_id (hd bucket))) (role (hd bucket)) p"
    by blast
  from assms(1) sp have "parts \<noteq> []"
  proof -
    from sp obtain p' ps1 buf1 buf2 where
      run: "process_events bucket
          ([header_sentence (fmt_missing (user_id (hd bucket))) (role (hd bucket)) p'], []) = Inr (ps1, buf1)"
      and fl: "flush_web_buffer (ps1, buf1) = Inr (parts, buf2)"
      by (auto simp: summary_parts_def Let_def split: sum.splits)
    have "prefix [header_sentence (fmt_missing (user_id (hd bucket))) (role (hd bucket)) p'] parts"
      using process_events_prefix [OF run] flush_web_buffer_prefix [OF fl]
      by (meson prefix_order.trans)
    then show ?thesis by (auto simp: prefix_def)
  qed
  then have "prefix (hd parts) n"
    unfolding n by (rule join_prefix)
  with h show ?thesis by auto
qed

lemma generate_narratives_Inr:
  assumes gen: "generate_narratives P rm logon_df device_df http_df = Inr out"
  obtains l d h where
    "logon_events P rm logon_df = Inr l" "device_events P rm device_df = Inr d"
    "http_events P rm http_df = Inr h"
    "apply_groups create_summary_from_events (merge_events l d h)
               (group_keys (merge_events l d h)) = Inr out"
proof -
  from gen obtain l where l: "logon_events P rm logon_df = Inr l"
    by (cases "logon_events P rm logon_df") (simp_all add: generate_narratives_def)
  from gen l obtain d where d: "device_events P rm device_df = Inr d"
    by (cases "device_events P rm device_df") (simp_all add: generate_narratives_def)
  from gen l d obtain h where h: "http_events P rm http_df = Inr h"
    by (cases "http_events P rm http_df") (simp_all add: generate_narratives_def)
  from gen l d h have "apply_groups create_summary_from_events (merge_events l d h)
               (group_keys (merge_events l d h)) = Inr out"
    by (simp add: generate_narratives_def Let_def split: if_splits)
  with l d h show ?thesis by (rule that)
qed


lemma list_all2_setD:
  "list_all2 R xs ys \<Longrightarrow> x \<in> set xs \<Longrightarrow> \<exists>y \<in> set ys. R x y"
  by (induction rule: list_all2_induct) auto

lemma list_all2_setD2:
  "list_all2 R xs ys \<Longrightarrow> y \<in> set ys \<Longrightarrow> \<exists>x \<in> set xs. R x y"
  by (induction rule: list_all2_induct) auto

lemma join_copies_pos: "0 < join_copies rm uid"
  by (simp add: join_copies_def)

lemma apply_groups_complete:
  "apply_groups f df ks = Inr out \<Longrightarrow> k \<in> set ks
     \<Longrightarrow> \<exists>n. (snd k, fst k, n) \<in> set out \<and> f (get_group df k) = Inr n"
  by (induction ks arbitrary: out) (auto split: sum.splits)

lemma generate_narratives_events:
  assumes l: "logon_events to_datetime rm logon_df = Inr l"
    and d: "device_events to_datetime rm device_df = Inr d"
    and h: "http_events to_datetime rm http_df = Inr h"
    and ap: "apply_groups create_summary_from_events (merge_events l d h)
               (group_keys (merge_events l d h)) = Inr out"
    and e: "e \<in> set (l @ d @ h)" and v: "user_id e = Some v"
  shows "\<exists>n. (date_only (timestamp e), v, n) \<in> set out
             \<and> e \<in> set (get_group (merge_events l d h) (v, date_only (timestamp e)))
             \<and> create_summary_from_events
                   (get_group (merge_events l d h) (v, date_only (timestamp e))) = Inr n"
proof -
  have m: "e \<in> set (merge_events l d h)"
    using e by (simp add: set_merge_events)
  then have "(v, date_only (timestamp e)) \<in> set (group_keys (merge_events l d h))"
    using v by (rule group_keys_event)
  from apply_groups_complete [OF ap this] m v show ?thesis
    by (auto simp: get_group_def)
qed

text \<open>
  C8. Each of the three blocks keeps every row of its source: the events of a source are,
  in the order of the file, one for each row of the role map with the row's \<open>user_id\<close> and
  one when there is none (exactly one when the role map has one row for each user); an
  event carries the timestamp, the extracted \<open>user_id\<close>, the pc and the activity of its
  row; its role is \<open>Unknown\<close> when its user is not in the role map and a role of the map
  otherwise. When the pipeline returns, every event of the three sources that has a
  \<open>user_id\<close> is in the bucket of its user and day and that bucket has a narrative, so
  every row with a \<open>user_id\<close> of the three files is told in a narrative of its user and
  day; and every narrative of a user absent from the role map starts with the header
  \<open>User u (Role: Unknown) on pc:\<close>.
\<close>

theorem role_enrichment:
  "(logon_events to_datetime rm logon_df = Inr logon \<longrightarrow>
      list_all2
           (\<lambda>(d, u, p, a) e.
              to_datetime d = Some (timestamp e) \<and> user_id e = extract_user_id u \<and> pc e = p
              \<and> activity_type e = (if a = ''Logon'' then ''logon'' else ''logoff'') \<and> url e = None
              \<and> (user_id e \<notin> Some ` fst ` set rm \<longrightarrow> role e = ''Unknown'')
              \<and> (\<forall>v. user_id e = Some v \<and> v \<in> fst ` set rm \<longrightarrow> (v, role e) \<in> set rm))
           (concat (map (\<lambda>(d, u, p, a).
                      replicate (join_copies rm (extract_user_id u)) (d, u, p, a)) logon_df))
           logon)
   \<and> (device_events to_datetime rm device_df = Inr device \<longrightarrow>
      list_all2
           (\<lambda>(d, u, p, a) e.
              to_datetime d = Some (timestamp e) \<and> user_id e = extract_user_id u \<and> pc e = p
              \<and> activity_type e = (if a = ''Connect'' then ''device_connect'' else ''device_disconnect'')
              \<and> url e = None
              \<and> (user_id e \<notin> Some ` fst ` set rm \<longrightarrow> role e = ''Unknown'')
              \<and> (\<forall>v. user_id e = Some v \<and> v \<in> fst ` set rm \<longrightarrow> (v, role e) \<in> set rm))
           (concat (map (\<lambda>(d, u, p, a).
                      replicate (join_copies rm (extract_user_id u)) (d, u, p, a)) device_df))
           device)
   \<and> (http_events to_datetime rm http_df = Inr http \<longrightarrow>
      list_all2
           (\<lambda>(i, d, u, p, l, c) e.
              to_datetime d = Some (timestamp e) \<and> user_id e = extract_user_id u \<and> pc e = p
              \<and> activity_type e = ''http'' \<and> url e = Some l
              \<and> (user_id e \<notin> Some ` fst ` set rm \<longrightarrow> role e = ''Unknown'')
              \<and> (\<forall>v. user_id e = Some v \<and> v \<in> fst ` set rm \<longrightarrow> (v, role e) \<in> set rm))
           (concat (map (\<lambda>(i, d, u, p, l, c).
                      replicate (join_copies rm (extract_user_id u)) (i, d, u, p, l, c)) http_df))
           http)
   \<and> (distinct (map fst rm) \<longrightarrow> join_copies rm uid = 1)
   \<and> (generate_narratives to_datetime rm logon_df device_df http_df = Inr out \<longrightarrow>
        (\<exists>l d h.
          logon_events to_datetime rm logon_df = Inr l
          \<and> device_events to_datetime rm device_df = Inr d
          \<and> http_events to_datetime rm http_df = Inr h
          \<and> (\<forall>e \<in> set (l @ d @ h). \<forall>v. user_id e = Some v \<longrightarrow>
                (\<exists>n. (date_only (timestamp e), v, n) \<in> set out
                     \<and> e \<in> set (get_group (merge_events l d h) (v, date_only (timestamp e)))
                     \<and> create_summary_from_events
                           (get_group (merge_events l d h) (v, date_only (timestamp e))) = Inr n)))
        \<and> (\<forall>(d, u, p, a) \<in> set (logon_df @ device_df). \<forall>v. extract_user_id u = Some v \<longrightarrow>
             (\<exists>t n. to_datetime d = Some t \<and> (date_only t, v, n) \<in> set out))
        \<and> (\<forall>(i, d, u, p, l, c) \<in> set http_df. \<forall>v. extract_user_id u = Some v \<longrightarrow>
             (\<exists>t n. to_datetime d = Some t \<and> (date_only t, v, n) \<in> set out))
        \<and> (\<forall>(d, u, n) \<in> set out.
           u \<notin> fst ` set rm \<longrightarrow> (\<exists>p. prefix (header_sentence u ''Unknown'' p) n)))"
proof (intro conjI impI)
  assume "logon_events to_datetime rm logon_df = Inr logon"
  then show "list_all2
           (\<lambda>(d, u, p, a) e.
              to_datetime d = Some (timestamp e) \<and> user_id e = extract_user_id u \<and> pc e = p
              \<and> activity_type e = (if a = ''Logon'' then ''logon'' else ''logoff'') \<and> url e = None
              \<and> (user_id e \<notin> Some ` fst ` set rm \<longrightarrow> role e = ''Unknown'')
              \<and> (\<forall>v. user_id e = Some v \<and> v \<in> fst ` set rm \<longrightarrow> (v, role e) \<in> set rm))
           (concat (map (\<lambda>(d, u, p, a).
                      replicate (join_copies rm (extract_user_id u)) (d, u, p, a)) logon_df))
           logon"
    by (rule logon_events_rows)
next
  assume "device_events to_datetime rm device_df = Inr device"
  then show "list_all2
           (\<lambda>(d, u, p, a) e.
              to_datetime d = Some (timestamp e) \<and> user_id e = extract_user_id u \<and> pc e = p
              \<and> activity_type e = (if a = ''Connect'' then ''device_connect'' else ''device_disconnect'')
              \<and> url e = None
              \<and> (user_id e \<notin> Some ` fst ` set rm \<longrightarrow> role e = ''Unknown'')
              \<and> (\<forall>v. user_id e = Some v \<and> v \<in> fst ` set rm \<longrightarrow> (v, role e) \<in> set rm))
           (concat (map (\<lambda>(d, u, p, a).
                      replicate (join_copies rm (extract_user_id u)) (d, u, p, a)) device_df))
           device"
    by (rule device_events_rows)
next
  assume "http_events to_datetime rm http_df = Inr http"
  then show "list_all2
           (\<lambda>(i, d, u, p, l, c) e.
              to_datetime d = Some (timestamp e) \<and> user_id e = extract_user_id u \<and> pc e = p
              \<and> activity_type e = ''http'' \<and> url e = Some l
              \<and> (user_id e \<notin> Some ` fst ` set rm \<longrightarrow> role e = ''Unknown'')
              \<and> (\<forall>v. user_id e = Some v \<and> v \<in> fst ` set rm \<longrightarrow> (v, role e) \<in> set rm))
           (concat (map (\<lambda>(i, d, u, p, l, c).
                      replicate (join_copies rm (extract_user_id u)) (i, d, u, p, l, c)) http_df))
           http"
    by (rule http_events_rows)
next
  assume "distinct (map fst rm)"
  then show "join_copies rm uid = 1"
    by (rule join_copies_single)
next
  assume gen: "generate_narratives to_datetime rm logon_df device_df http_df = Inr out"
  then obtain l d h where
    l: "logon_events to_datetime rm logon_df = Inr l"
    and d: "device_events to_datetime rm device_df = Inr d"
    and h: "http_events to_datetime rm http_df = Inr h"
    and ap: "apply_groups create_summary_from_events (merge_events l d h)
               (group_keys (merge_events l d h)) = Inr out"
    by (rule generate_narratives_Inr)
  have ev: "\<exists>n. (date_only (timestamp e), v, n) \<in> set out
             \<and> e \<in> set (get_group (merge_events l d h) (v, date_only (timestamp e)))
             \<and> create_summary_from_events
                   (get_group (merge_events l d h) (v, date_only (timestamp e))) = Inr n"
    if "e \<in> set (l @ d @ h)" "user_id e = Some v" for e v
    using l d h ap that by (rule generate_narratives_events)
  show "(\<exists>l d h.
          logon_events to_datetime rm logon_df = Inr l
          \<and> device_events to_datetime rm device_df = Inr d
          \<and> http_events to_datetime rm http_df = Inr h
          \<and> (\<forall>e \<in> set (l @ d @ h). \<forall>v. user_id e = Some v \<longrightarrow>
                (\<exists>n. (date_only (timestamp e), v, n) \<in> set out
                     \<and> e \<in> set (get_group (merge_events l d h) (v, date_only (timestamp e)))
                     \<and> create_summary_from_events
                           (get_group (merge_events l d h) (v, date_only (timestamp e))) = Inr n)))"
    using l d h ev by blast
  have act: "\<exists>t n. to_datetime dt = Some t \<and> (date_only t, v, n) \<in> set out"
    if row: "(dt, u, p, a) \<in> set (logon_df @ device_df)" and v: "extract_user_id u = Some v"
    for dt u p a v
  proof -
    from row consider "(dt, u, p, a) \<in> set logon_df" | "(dt, u, p, a) \<in> set device_df"
      by auto
    then obtain e where e: "e \<in> set (l @ d @ h)" and t: "to_datetime dt = Some (timestamp e)"
      and uid: "user_id e = extract_user_id u"
    proof cases
      case 1
      then have "(dt, u, p, a) \<in> set (concat (map (\<lambda>(d, u, p, a).
                      replicate (join_copies rm (extract_user_id u)) (d, u, p, a)) logon_df))"
        using join_copies_pos [of rm "extract_user_id u"] by force
      from list_all2_setD [OF logon_events_rows [OF l] this] show ?thesis
        using that by auto
    next
      case 2
      then have "(dt, u, p, a) \<in> set (concat (map (\<lambda>(d, u, p, a).
                      replicate (join_copies rm (extract_user_id u)) (d, u, p, a)) device_df))"
        using join_copies_pos [of rm "extract_user_id u"] by force
      from list_all2_setD [OF device_events_rows [OF d] this] show ?thesis
        using that by auto
    qed
    from ev [OF e] uid v t show ?thesis by auto
  qed
  show "(\<forall>(d, u, p, a) \<in> set (logon_df @ device_df). \<forall>v. extract_user_id u = Some v \<longrightarrow>
             (\<exists>t n. to_datetime d = Some t \<and> (date_only t, v, n) \<in> set out))"
    using act by blast
  have web: "\<exists>t n. to_datetime dt = Some t \<and> (date_only t, v, n) \<in> set out"
    if row: "(i, dt, u, p, lnk, c) \<in> set http_df" and v: "extract_user_id u = Some v"
    for i dt u p lnk c v
  proof -
    from row have "(i, dt, u, p, lnk, c) \<in> set (concat (map (\<lambda>(i, d, u, p, l, c).
                      replicate (join_copies rm (extract_user_id u)) (i, d, u, p, l, c)) http_df))"
      using join_copies_pos [of rm "extract_user_id u"] by force
    from list_all2_setD [OF http_events_rows [OF h] this]
    obtain e where e: "e \<in> set (l @ d @ h)" and t: "to_datetime dt = Some (timestamp e)"
      and uid: "user_id e = extract_user_id u"
      by auto
    from ev [OF e] uid v t show ?thesis by auto
  qed
  show "(\<forall>(i, d, u, p, l, c) \<in> set http_df. \<forall>v. extract_user_id u = Some v \<longrightarrow>
             (\<exists>t n. to_datetime d = Some t \<and> (date_only t, v, n) \<in> set out))"
    using web by blast
  let ?final = "merge_events l d h"
  show "(\<forall>(d, u, n) \<in> set out.
           u \<notin> fst ` set rm \<longrightarrow> (\<exists>p. prefix (header_sentence u ''Unknown'' p) n))"
  proof (clarify)
    fix dt u n
    assume mem: "(dt, u, n) \<in> set out" and absent: "u \<notin> fst ` set rm"
    from apply_groups_member [OF ap mem] have
      k: "(u, dt) \<in> set (group_keys ?final)"
      and cs: "create_summary_from_events (get_group ?final (u, dt)) = Inr n"
      by simp_all
    let ?bucket = "get_group ?final (u, dt)"
    have ne: "?bucket \<noteq> []" using k by (rule group_keys_member)
    then have "hd ?bucket \<in> set ?bucket" by simp
    then have uid: "user_id (hd ?bucket) = Some u" and src: "hd ?bucket \<in> set (l @ d @ h)"
      by (simp_all add: get_group_def set_merge_events)
    have no: "user_id (hd ?bucket) \<notin> Some ` fst ` set rm"
      using uid absent by auto
    from src consider "hd ?bucket \<in> set l" | "hd ?bucket \<in> set d" | "hd ?bucket \<in> set h"
      by auto
    then have "role (hd ?bucket) = ''Unknown''"
    proof cases
      case 1
      from list_all2_setD2 [OF logon_events_rows [OF l] 1] no show ?thesis by auto
    next
      case 2
      from list_all2_setD2 [OF device_events_rows [OF d] 2] no show ?thesis by auto
    next
      case 3
      from list_all2_setD2 [OF http_events_rows [OF h] 3] no show ?thesis by auto
    qed
    with create_summary_header [OF cs ne] uid
    show "\<exists>p. prefix (header_sentence u ''Unknown'' p) n"
      by (simp add: fmt_missing_def)
  qed
qed


text \<open>
  A run of the whole pipeline on two logon rows, one device row and one http row, step by
  step.
\<close>

lemma example_user_ids:
  "extract_user_id ''DTAA/zed'' = Some ''zed''"
  "extract_user_id ''DTAA/bob'' = Some ''bob''"
  by (simp_all add: extract_user_id_def)

lemma example_logon_events:
 "logon_events
     (\<lambda>s. if s = ''1970-01-01 08:00:00'' then Some 28800000000000
          else if s = ''1970-01-01 09:00:00'' then Some 32400000000000 else None)
     [(''bob'', ''ITAdmin'')]
     [(''1970-01-01 08:00:00'', ''DTAA/zed'', ''PC-07'', ''Logon''),
      (''1970-01-01 08:00:00'', ''DTAA/bob'', ''PC-01'', ''Logon'')]
  = Inr [\<lparr>timestamp = 28800000000000, user_id = Some ''zed'', role = ''Unknown'', pc = ''PC-07'',
          activity_type = ''logon'', url = None\<rparr>,
         \<lparr>timestamp = 28800000000000, user_id = Some ''bob'', role = ''ITAdmin'', pc = ''PC-01'',
          activity_type = ''logon'', url = None\<rparr>]"
  by (simp add: logon_events_def enrich_def example_user_ids merge_roles_def fillna_role_def)

lemma example_device_events:
 "device_events
     (\<lambda>s. if s = ''1970-01-01 08:00:00'' then Some 28800000000000
          else if s = ''1970-01-01 09:00:00'' then Some 32400000000000 else None)
     [(''bob'', ''ITAdmin'')]
     [(''1970-01-01 09:00:00'', ''DTAA/zed'', ''PC-07'', ''Connect'')]
  = Inr [\<lparr>timestamp = 32400000000000, user_id = Some ''zed'', role = ''Unknown'', pc = ''PC-07'',
          activity_type = ''device_connect'', url = None\<rparr>]"
  by (simp add: device_events_def enrich_def example_user_ids merge_roles_def fillna_role_def)

lemma example_http_events:
 "http_events
     (\<lambda>s. if s = ''1970-01-01 08:00:00'' then Some 28800000000000
          else if s = ''1970-01-01 09:00:00'' then Some 32400000000000 else None)
     [(''bob'', ''ITAdmin'')]
     [(''{A1}'', ''1970-01-01 09:00:00'', ''DTAA/bob'', ''PC-01'', ''http://example.com/a'', ''text'')]
  = Inr [\<lparr>timestamp = 32400000000000, user_id = Some ''bob'', role = ''ITAdmin'', pc = ''PC-01'',
          activity_type = ''http'', url = Some ''http://example.com/a''\<rparr>]"
  by (simp add: http_events_def enrich_def example_user_ids merge_roles_def fillna_role_def)

lemma example_merge_events:
  "merge_events
     [\<lparr>timestamp = 28800000000000, user_id = Some ''zed'', role = ''Unknown'', pc = ''PC-07'',
          activity_type = ''logon'', url = None\<rparr>,
      \<lparr>timestamp = 28800000000000, user_id = Some ''bob'', role = ''ITAdmin'', pc = ''PC-01'',
          activity_type = ''logon'', url = None\<rparr>]
     [\<lparr>timestamp = 32400000000000, user_id = Some ''zed'', role = ''Unknown'', pc = ''PC-07'',
          activity_type = ''device_connect'', url = None\<rparr>]
     [\<lparr>timestamp = 32400000000000, user_id = Some ''bob'', role = ''ITAdmin'', pc = ''PC-01'',
          activity_type = ''http'', url = Some ''http://example.com/a''\<rparr>]
   = [\<lparr>timestamp = 28800000000000, user_id = Some ''bob'', role = ''ITAdmin'', pc = ''PC-01'',
          activity_type = ''logon'', url = None\<rparr>,
      \<lparr>timestamp = 32400000000000, user_id = Some ''bob'', role = ''ITAdmin'', pc = ''PC-01'',
          activity_type = ''http'', url = Some ''http://example.com/a''\<rparr>,
      \<lparr>timestamp = 28800000000000, user_id = Some ''zed'', role = ''Unknown'', pc = ''PC-07'',
          activity_type = ''logon'', url = None\<rparr>,
      \<lparr>timestamp = 32400000000000, user_id = Some ''zed'', role = ''Unknown'', pc = ''PC-07'',
          activity_type = ''device_connect'', url = None\<rparr>]"
  by (simp add: merge_events_def sort_values_def sort_values_key_def)

lemma example_group_keys:
  "group_keys
     [\<lparr>timestamp = 28800000000000, user_id = Some ''bob'', role = ''ITAdmin'', pc = ''PC-01'',
          activity_type = ''logon'', url = None\<rparr>,
      \<lparr>timestamp = 32400000000000, user_id = Some ''bob'', role = ''ITAdmin'', pc = ''PC-01'',
          activity_type = ''http'', url = Some ''http://example.com/a''\<rparr>,
      \<lparr>timestamp = 28800000000000, user_id = Some ''zed'', role = ''Unknown'', pc = ''PC-07'',
          activity_type = ''logon'', url = None\<rparr>,
      \<lparr>timestamp = 32400000000000, user_id = Some ''zed'', role = ''Unknown'', pc = ''PC-07'',
          activity_type = ''device_connect'', url = None\<rparr>]
   = [(''bob'', 0), (''zed'', 0)]"
  by (simp add: group_keys_def map_filter_def date_only_def)

lemma example_generate_narratives:
  "generate_narratives
     (\<lambda>s. if s = ''1970-01-01 08:00:00'' then Some 28800000000000
          else if s = ''1970-01-01 09:00:00'' then Some 32400000000000 else None)
     [(''bob'', ''ITAdmin'')]
     [(''1970-01-01 08:00:00'', ''DTAA/zed'', ''PC-07'', ''Logon''),
      (''1970-01-01 08:00:00'', ''DTAA/bob'', ''PC-01'', ''Logon'')]
     [(''1970-01-01 09:00:00'', ''DTAA/zed'', ''PC-07'', ''Connect'')]
     [(''{A1}'', ''1970-01-01 09:00:00'', ''DTAA/bob'', ''PC-01'', ''http://example.com/a'', ''text'')]
   = Inr [(0::int, ''bob'', ''User bob (Role: ITAdmin) on PC-01: Logged on at 08:00:00. Between 09:00:00 and 09:00:00, visited 1 websites, including example.com (1 times).''),
          (0, ''zed'', ''User zed (Role: Unknown) on PC-07: Logged on at 08:00:00. Connected a USB device at 09:00:00.'')]"
proof -
  have t: "strftime_HMS 28800000000000 = ''08:00:00''" "strftime_HMS 32400000000000 = ''09:00:00''"
    by (simp_all add: strftime_HMS_def two_digits_def digit_char_def)
  have bob: "create_summary_from_events
      [\<lparr>timestamp = 28800000000000, user_id = Some ''bob'', role = ''ITAdmin'', pc = ''PC-01'',
          activity_type = ''logon'', url = None\<rparr>,
       \<lparr>timestamp = 32400000000000, user_id = Some ''bob'', role = ''ITAdmin'', pc = ''PC-01'',
          activity_type = ''http'', url = Some ''http://example.com/a''\<rparr>]
      = Inr ''User bob (Role: ITAdmin) on PC-01: Logged on at 08:00:00. Between 09:00:00 and 09:00:00, visited 1 websites, including example.com (1 times).''"
    by (simp add: create_summary_from_events_def summary_parts_def header_pc_def mode_def py_first_def
        fmt_missing_def header_sentence_def flush_web_buffer_def emit_event_def t flush_sentence_def
        item_domain_def domain_of_eq web_summary_sentence_def top_domains_str_def most_common_def
        Counter_def str_nat.simps digit_char_def)
  have zed: "create_summary_from_events
      [\<lparr>timestamp = 28800000000000, user_id = Some ''zed'', role = ''Unknown'', pc = ''PC-07'',
          activity_type = ''logon'', url = None\<rparr>,
       \<lparr>timestamp = 32400000000000, user_id = Some ''zed'', role = ''Unknown'', pc = ''PC-07'',
          activity_type = ''device_connect'', url = None\<rparr>]
      = Inr ''User zed (Role: Unknown) on PC-07: Logged on at 08:00:00. Connected a USB device at 09:00:00.''"
    by (simp add: create_summary_from_events_def summary_parts_def header_pc_def mode_def py_first_def
        fmt_missing_def header_sentence_def flush_web_buffer_def emit_event_def t)
  show ?thesis
    by (simp add: generate_narratives_def example_logon_events example_device_events
        example_http_events example_merge_events example_group_keys get_group_def
        date_only_def bob zed)
qed

theorem role_enrichment_witness:
  "generate_narratives
     (\<lambda>s. if s = ''1970-01-01 08:00:00'' then Some 28800000000000
          else if s = ''1970-01-01 09:00:00'' then Some 32400000000000 else None)
     [(''bob'', ''ITAdmin'')]
     [(''1970-01-01 08:00:00'', ''DTAA/zed'', ''PC-07'', ''Logon''),
      (''1970-01-01 08:00:00'', ''DTAA/bob'', ''PC-01'', ''Logon'')]
     [(''1970-01-01 09:00:00'', ''DTAA/zed'', ''PC-07'', ''Connect'')]
     [(''{A1}'', ''1970-01-01 09:00:00'', ''DTAA/bob'', ''PC-01'', ''http://example.com/a'', ''text'')]
   = Inr [(0::int, ''bob'', ''User bob (Role: ITAdmin) on PC-01: Logged on at 08:00:00. Between 09:00:00 and 09:00:00, visited 1 websites, including example.com (1 times).''),
          (0, ''zed'', ''User zed (Role: Unknown) on PC-07: Logged on at 08:00:00. Connected a USB device at 09:00:00.'')]
   \<and> device_events
     (\<lambda>s. if s = ''1970-01-01 08:00:00'' then Some 28800000000000
          else if s = ''1970-01-01 09:00:00'' then Some 32400000000000 else None)
     [(''bob'', ''ITAdmin'')]
     [(''1970-01-01 09:00:00'', ''DTAA/zed'', ''PC-07'', ''Connect'')]
     = Inr [\<lparr>timestamp = 32400000000000, user_id = Some ''zed'', role = ''Unknown'', pc = ''PC-07'',
          activity_type = ''device_connect'', url = None\<rparr>]
   \<and> length [\<lparr>timestamp = 32400000000000, user_id = Some ''zed'', role = ''Unknown'', pc = ''PC-07'',
          activity_type = ''device_connect'', url = None\<rparr>]
       = length (concat (map (\<lambda>(d, u, p, a). replicate (join_copies [(''bob'', ''ITAdmin'')] (extract_user_id u)) (d, u, p, a))
           [(''1970-01-01 09:00:00'', ''DTAA/zed'', ''PC-07'', ''Connect'')]))
   \<and> logon_events
     (\<lambda>s. if s = ''1970-01-01 08:00:00'' then Some 28800000000000
          else if s = ''1970-01-01 09:00:00'' then Some 32400000000000 else None)
     [(''bob'', ''ITAdmin'')]
     [(''1970-01-01 08:00:00'', ''DTAA/zed'', ''PC-07'', ''Logon''),
      (''1970-01-01 08:00:00'', ''DTAA/bob'', ''PC-01'', ''Logon'')]
     = Inr [\<lparr>timestamp = 28800000000000, user_id = Some ''zed'', role = ''Unknown'', pc = ''PC-07'',
          activity_type = ''logon'', url = None\<rparr>,
         \<lparr>timestamp = 28800000000000, user_id = Some ''bob'', role = ''ITAdmin'', pc = ''PC-01'',
          activity_type = ''logon'', url = None\<rparr>]
   \<and> length [\<lparr>timestamp = 28800000000000, user_id = Some ''zed'', role = ''Unknown'', pc = ''PC-07'',
          activity_type = ''logon'', url = None\<rparr>,
         \<lparr>timestamp = 28800000000000, user_id = Some ''bob'', role = ''ITAdmin'', pc = ''PC-01'',
          activity_type = ''logon'', url = None\<rparr>]
       = length (concat (map (\<lambda>(d, u, p, a). replicate (join_copies [(''bob'', ''ITAdmin'')] (extract_user_id u)) (d, u, p, a))
           [(''1970-01-01 08:00:00'', ''DTAA/zed'', ''PC-07'', ''Logon''),
      (''1970-01-01 08:00:00'', ''DTAA/bob'', ''PC-01'', ''Logon'')]))
   \<and> http_events
     (\<lambda>s. if s = ''1970-01-01 08:00:00'' then Some 28800000000000
          else if s = ''1970-01-01 09:00:00'' then Some 32400000000000 else None)
     [(''bob'', ''ITAdmin'')]
     [(''{A1}'', ''1970-01-01 09:00:00'', ''DTAA/bob'', ''PC-01'', ''http://example.com/a'', ''text'')]
     = Inr [\<lparr>timestamp = 32400000000000, user_id = Some ''bob'', role = ''ITAdmin'', pc = ''PC-01'',
          activity_type = ''http'', url = Some ''http://example.com/a''\<rparr>]
   \<and> length [\<lparr>timestamp = 32400000000000, user_id = Some ''bob'', role = ''ITAdmin'', pc = ''PC-01'',
          activity_type = ''http'', url = Some ''http://example.com/a''\<rparr>]
       = length (concat (map (\<lambda>(i, d, u, p, l, c). replicate (join_copies [(''bob'', ''ITAdmin'')] (extract_user_id u)) (i, d, u, p, l, c))
           [(''{A1}'', ''1970-01-01 09:00:00'', ''DTAA/bob'', ''PC-01'', ''http://example.com/a'', ''text'')]))
   \<and> distinct (map fst [(''bob'', ''ITAdmin'')])
   \<and> join_copies [(''bob'', ''ITAdmin'')] (Some ''zed'') = 1
   \<and> ''zed'' \<notin> fst ` set [(''bob'', ''ITAdmin'')]
   \<and> (\<exists>p. prefix (header_sentence ''zed'' ''Unknown'' p)
          ''User zed (Role: Unknown) on PC-07: Logged on at 08:00:00. Connected a USB device at 09:00:00.'')
   \<and> (\<exists>t n. (\<lambda>s. if s = ''1970-01-01 08:00:00'' then Some 28800000000000
          else if s = ''1970-01-01 09:00:00'' then Some 32400000000000 else None) ''1970-01-01 09:00:00'' = Some t
          \<and> (date_only t, ''zed'', n) \<in> set [(0::int, ''bob'', ''User bob (Role: ITAdmin) on PC-01: Logged on at 08:00:00. Between 09:00:00 and 09:00:00, visited 1 websites, including example.com (1 times).''),
          (0, ''zed'', ''User zed (Role: Unknown) on PC-07: Logged on at 08:00:00. Connected a USB device at 09:00:00.'')])"
proof -
  let ?P = "(\<lambda>s. if s = ''1970-01-01 08:00:00'' then Some 28800000000000
          else if s = ''1970-01-01 09:00:00'' then Some 32400000000000 else None)"
  let ?rm = "[(''bob'', ''ITAdmin'')]"
  let ?logon_df = "[(''1970-01-01 08:00:00'', ''DTAA/zed'', ''PC-07'', ''Logon''),
      (''1970-01-01 08:00:00'', ''DTAA/bob'', ''PC-01'', ''Logon'')]"
  let ?device_df = "[(''1970-01-01 09:00:00'', ''DTAA/zed'', ''PC-07'', ''Connect'')]"
  let ?http_df = "[(''{A1}'', ''1970-01-01 09:00:00'', ''DTAA/bob'', ''PC-01'', ''http://example.com/a'', ''text'')]"
  let ?device = "[\<lparr>timestamp = 32400000000000, user_id = Some ''zed'', role = ''Unknown'', pc = ''PC-07'',
          activity_type = ''device_connect'', url = None\<rparr>]"
  let ?logon = "[\<lparr>timestamp = 28800000000000, user_id = Some ''zed'', role = ''Unknown'', pc = ''PC-07'',
          activity_type = ''logon'', url = None\<rparr>,
         \<lparr>timestamp = 28800000000000, user_id = Some ''bob'', role = ''ITAdmin'', pc = ''PC-01'',
          activity_type = ''logon'', url = None\<rparr>]"
  let ?http = "[\<lparr>timestamp = 32400000000000, user_id = Some ''bob'', role = ''ITAdmin'', pc = ''PC-01'',
          activity_type = ''http'', url = Some ''http://example.com/a''\<rparr>]"
  let ?out = "[(0::int, ''bob'', ''User bob (Role: ITAdmin) on PC-01: Logged on at 08:00:00. Between 09:00:00 and 09:00:00, visited 1 websites, including example.com (1 times).''),
          (0, ''zed'', ''User zed (Role: Unknown) on PC-07: Logged on at 08:00:00. Connected a USB device at 09:00:00.'')]"
  have gen: "generate_narratives ?P ?rm ?logon_df ?device_df ?http_df = Inr ?out"
    by (rule example_generate_narratives)
  have dev: "device_events ?P ?rm ?device_df = Inr ?device"
    by (rule example_device_events)
  note inst = role_enrichment [where to_datetime = ?P and rm = ?rm and logon_df = ?logon_df
      and device_df = ?device_df and http_df = ?http_df and out = ?out and device = ?device
      and logon = ?logon and http = ?http and uid = "Some ''zed''"]
  have dist: "distinct (map fst ?rm)"
    by simp
  have one: "join_copies ?rm (Some ''zed'') = 1"
    by (rule inst [THEN conjunct2, THEN conjunct2, THEN conjunct2, THEN conjunct1, THEN mp, OF dist])
  have "list_all2 (\<lambda>x y. True)
          (concat (map (\<lambda>(d, u, p, a). replicate (join_copies ?rm (extract_user_id u)) (d, u, p, a))
             ?device_df)) ?device"
    by (rule list_all2_mono [OF inst [THEN conjunct2, THEN conjunct1, THEN mp, OF dev]]) simp
  then have len: "length ?device
       = length (concat (map (\<lambda>(d, u, p, a). replicate (join_copies ?rm (extract_user_id u)) (d, u, p, a))
           ?device_df))"
    by (rule list_all2_lengthD [symmetric])
  have log: "logon_events ?P ?rm ?logon_df = Inr ?logon"
    by (rule example_logon_events)
  have "list_all2 (\<lambda>x y. True)
          (concat (map (\<lambda>(d, u, p, a). replicate (join_copies ?rm (extract_user_id u)) (d, u, p, a))
             ?logon_df)) ?logon"
    by (rule list_all2_mono [OF inst [THEN conjunct1, THEN mp, OF log]]) simp
  then have len_logon: "length ?logon
       = length (concat (map (\<lambda>(d, u, p, a). replicate (join_copies ?rm (extract_user_id u)) (d, u, p, a))
           ?logon_df))"
    by (rule list_all2_lengthD [symmetric])
  have web: "http_events ?P ?rm ?http_df = Inr ?http"
    by (rule example_http_events)
  have "list_all2 (\<lambda>x y. True)
          (concat (map (\<lambda>(i, d, u, p, l, c). replicate (join_copies ?rm (extract_user_id u)) (i, d, u, p, l, c))
             ?http_df)) ?http"
    by (rule list_all2_mono [OF inst [THEN conjunct2, THEN conjunct2, THEN conjunct1, THEN mp, OF web]]) simp
  then have len_http: "length ?http
       = length (concat (map (\<lambda>(i, d, u, p, l, c). replicate (join_copies ?rm (extract_user_id u)) (i, d, u, p, l, c))
           ?http_df))"
    by (rule list_all2_lengthD [symmetric])
  have absent: "''zed'' \<notin> fst ` set ?rm"
    by simp
  note pipeline = inst [THEN conjunct2, THEN conjunct2, THEN conjunct2, THEN conjunct2, THEN mp, OF gen]
  have "\<forall>(d, u, n) \<in> set ?out.
      u \<notin> fst ` set ?rm \<longrightarrow> (\<exists>p. prefix (header_sentence u ''Unknown'' p) n)"
    by (rule pipeline [THEN conjunct2, THEN conjunct2, THEN conjunct2])
  then have hdr: "\<exists>p. prefix (header_sentence ''zed'' ''Unknown'' p) ''User zed (Role: Unknown) on PC-07: Logged on at 08:00:00. Connected a USB device at 09:00:00.''"
    by simp
  have "\<forall>(d, u, p, a) \<in> set (?logon_df @ ?device_df). \<forall>v. extract_user_id u = Some v \<longrightarrow>
             (\<exists>t n. ?P d = Some t \<and> (date_only t, v, n) \<in> set ?out)"
    by (rule pipeline [THEN conjunct2, THEN conjunct1])
  then have "\<forall>v. extract_user_id ''DTAA/zed'' = Some v \<longrightarrow>
             (\<exists>t n. ?P ''1970-01-01 09:00:00'' = Some t \<and> (date_only t, v, n) \<in> set ?out)"
    by simp
  then have told: "\<exists>t n. ?P ''1970-01-01 09:00:00'' = Some t \<and> (date_only t, ''zed'', n) \<in> set ?out"
    using example_user_ids(1) by blast
  from gen dev len log len_logon web len_http dist one absent hdr told show ?thesis
    by (intro conjI)
qed

section \<open>A user field without separator\<close>





lemma enrich_error: "enrich P rm date_of user_of df = Inl e \<Longrightarrow> e = ValueError"
  by (auto simp: enrich_def Let_def split: if_splits)











lemma http_events_error: "http_events P rm df = Inl e \<Longrightarrow> e = ValueError"
  by (auto simp: http_events_def dest: enrich_error split: sum.splits)

















end
